theory Spec2Isabelle
  imports Main "HOL-Library.Char_ord" "HOL-Library.List_Lexorder" "HOL-Library.AList"
begin

section \<open>JavaScript string helpers\<close>

text \<open>
  Strings are modelled as \<^typ>\<open>string\<close>, one \<^typ>\<open>char\<close> per code unit, for text whose
  code units are below 256. The empty string is the only falsy string.
\<close>

definition is_ws :: "char \<Rightarrow> bool" where
  \<comment> \<open>what \<open>String.prototype.trim\<close> strips: TAB, LF, VT, FF, CR, SPACE, NBSP\<close>
  "is_ws c = (let n = (of_char c :: nat) in (9 \<le> n \<and> n \<le> 13) \<or> n = 32 \<or> n = 160)"

definition trim :: "string \<Rightarrow> string" where
  "trim s = rev (dropWhile is_ws (rev (dropWhile is_ws s)))"

definition lower_char :: "char \<Rightarrow> char" where
  \<comment> \<open>\<open>toLowerCase\<close> on one code unit: A-Z, and the Latin-1 capitals but the times sign\<close>
  "lower_char c =
     (let n = (of_char c :: nat)
      in if (65 \<le> n \<and> n \<le> 90) \<or> (192 \<le> n \<and> n \<le> 222 \<and> n \<noteq> 215)
         then char_of (n + 32) else c)"

definition toLowerCase :: "string \<Rightarrow> string" where
  "toLowerCase s = map lower_char s"

definition digit_char :: "nat \<Rightarrow> char" where
  "digit_char d = char_of (48 + d)"

fun show_nat :: "nat \<Rightarrow> string" where
  \<comment> \<open>the decimal numeral a template literal prints for a non-negative integer\<close>
  "show_nat n = (if n < 10 then [digit_char n] else show_nat (n div 10) @ [digit_char (n mod 10)])"

declare show_nat.simps [simp del]

function suffix_loop :: "string list \<Rightarrow> string \<Rightarrow> string \<Rightarrow> nat \<Rightarrow> string" where
  \<comment> \<open>\<open>while (used.has(candidate)) candidate = `${seed}${sep}${counter++}`\<close>, entered with a
      candidate that is already known to be used\<close>
  "suffix_loop used seed sep counter =
     (let candidate = seed @ sep @ show_nat counter
      in if candidate \<in> set used then suffix_loop used seed sep (counter + 1) else candidate)"
  by pat_completeness auto

lemma digit_char_inj: "a < 10 \<Longrightarrow> b < 10 \<Longrightarrow> digit_char a = digit_char b \<Longrightarrow> a = b"
proof -
  assume a: "a < 10" and b: "b < 10" and e: "digit_char a = digit_char b"
  from e have "(of_char (char_of (48 + a)) :: nat) = of_char (char_of (48 + b))"
    unfolding digit_char_def by simp
  then have "(48 + a) mod 256 = (48 + b) mod 256" by simp
  with a b show "a = b" by simp
qed

lemma show_nat_nonempty: "show_nat n \<noteq> []"
  by (subst show_nat.simps) simp

lemma show_nat_inj_aux: "show_nat n = show_nat m \<Longrightarrow> n = m"
proof (induction n arbitrary: m rule: show_nat.induct)
  case (1 n)
  show ?case
  proof (cases "n < 10")
    case True
    then have ln: "show_nat n = [digit_char n]" by (subst show_nat.simps) simp
    show ?thesis
    proof (cases "m < 10")
      case True
      then have "show_nat m = [digit_char m]" by (subst show_nat.simps) simp
      with ln "1.prems" have "digit_char n = digit_char m" by simp
      with \<open>n < 10\<close> True show ?thesis by (rule digit_char_inj)
    next
      case False
      then have "show_nat m = show_nat (m div 10) @ [digit_char (m mod 10)]"
        by (subst show_nat.simps) simp
      with ln "1.prems" have "show_nat (m div 10) = []" by simp
      then show ?thesis using show_nat_nonempty by blast
    qed
  next
    case False
    then have ln: "show_nat n = show_nat (n div 10) @ [digit_char (n mod 10)]"
      by (subst show_nat.simps) simp
    show ?thesis
    proof (cases "m < 10")
      case True
      then have "show_nat m = [digit_char m]" by (subst show_nat.simps) simp
      with ln "1.prems" have "show_nat (n div 10) = []" by simp
      then show ?thesis using show_nat_nonempty by blast
    next
      case mf: False
      then have "show_nat m = show_nat (m div 10) @ [digit_char (m mod 10)]"
        by (subst show_nat.simps) simp
      with ln "1.prems" have a: "show_nat (n div 10) = show_nat (m div 10)"
        and b: "digit_char (n mod 10) = digit_char (m mod 10)" by simp_all
      from "1.IH" [OF False a] have q: "n div 10 = m div 10" .
      have r: "n mod 10 = m mod 10" by (rule digit_char_inj [OF _ _ b]) simp_all
      from q r show ?thesis by (metis div_mult_mod_eq)
    qed
  qed
qed

lemma candidate_inj: "inj (\<lambda>k. seed @ sep @ show_nat k)"
  by (rule injI) (simp add: show_nat_inj_aux)

lemma finite_used_candidates: "finite {k. P k \<and> seed @ sep @ show_nat k \<in> set used}"
proof -
  have "finite ((\<lambda>k. seed @ sep @ show_nat k) -` set used)"
    by (rule finite_vimageI [OF _ candidate_inj]) simp
  then show ?thesis by (rule rev_finite_subset) auto
qed

termination suffix_loop
proof (relation "measure (\<lambda>(used, seed, sep, counter).
         card {k. counter \<le> k \<and> seed @ sep @ show_nat k \<in> set used})")
  show "wf (measure (\<lambda>(used, seed, sep, counter).
         card {k. counter \<le> k \<and> seed @ sep @ show_nat k \<in> set used}))" by simp
next
  fix used :: "string list" and seed sep :: string and counter :: nat and x :: string
  assume x: "x = seed @ sep @ show_nat counter" and mem: "x \<in> set used"
  have "{k. counter + 1 \<le> k \<and> seed @ sep @ show_nat k \<in> set used}
          \<subset> {k. counter \<le> k \<and> seed @ sep @ show_nat k \<in> set used}"
  proof
    show "{k. counter + 1 \<le> k \<and> seed @ sep @ show_nat k \<in> set used}
          \<subseteq> {k. counter \<le> k \<and> seed @ sep @ show_nat k \<in> set used}" by auto
    have "counter \<in> {k. counter \<le> k \<and> seed @ sep @ show_nat k \<in> set used}"
      using x mem by simp
    moreover have "counter \<notin> {k. counter + 1 \<le> k \<and> seed @ sep @ show_nat k \<in> set used}"
      by simp
    ultimately show "{k. counter + 1 \<le> k \<and> seed @ sep @ show_nat k \<in> set used}
          \<noteq> {k. counter \<le> k \<and> seed @ sep @ show_nat k \<in> set used}" by blast
  qed
  then have "card {k. counter + 1 \<le> k \<and> seed @ sep @ show_nat k \<in> set used}
          < card {k. counter \<le> k \<and> seed @ sep @ show_nat k \<in> set used}"
    by (rule psubset_card_mono [OF finite_used_candidates])
  then show "((used, seed, sep, counter + 1), (used, seed, sep, counter))
          \<in> measure (\<lambda>(used, seed, sep, counter).
              card {k. counter \<le> k \<and> seed @ sep @ show_nat k \<in> set used})"
    by simp
qed

declare suffix_loop.simps [simp del]

definition or_str :: "string \<Rightarrow> string \<Rightarrow> string" where
  \<comment> \<open>\<open>a || b\<close> on strings\<close>
  "or_str a b = (if a \<noteq> [] then a else b)"

section \<open>Lead-form builder: field keys\<close>

definition key_char :: "char \<Rightarrow> bool" where
  \<comment> \<open>the character class \<open>[a-z0-9_]\<close>\<close>
  "key_char c =
     (let n = (of_char c :: nat) in (97 \<le> n \<and> n \<le> 122) \<or> (48 \<le> n \<and> n \<le> 57) \<or> n = 95)"

fun replace_runs :: "bool \<Rightarrow> string \<Rightarrow> string" where
  \<comment> \<open>\<open>.replace(/[^a-z0-9_]+/g, "_")\<close>: every maximal run of other characters becomes one
      underscore; the flag says that the previous character belonged to such a run\<close>
  "replace_runs in_run [] = []"
| "replace_runs in_run (c # cs) =
     (if key_char c then c # replace_runs False cs
      else if in_run then replace_runs True cs
      else CHR ''_'' # replace_runs True cs)"

definition strip_underscores :: "string \<Rightarrow> string" where
  \<comment> \<open>\<open>.replace(/^_+|_+$/g, "")\<close>\<close>
  "strip_underscores s =
     rev (dropWhile (\<lambda>c. c = CHR ''_'') (rev (dropWhile (\<lambda>c. c = CHR ''_'') s)))"

definition normalizeKey :: "string \<Rightarrow> string" where
  "normalizeKey v = take 40 (strip_underscores (replace_runs False (toLowerCase (trim v))))"

datatype field_type = FText | FEmail | FPhone | FTextarea | FSelect | FCheckbox

record field_validation =
  minLength :: "nat option"
  emailFormat :: "bool option"

record builder_field =
  b_id :: string
  b_key :: string
  b_label :: string
  b_type :: field_type
  b_required :: bool
  b_enabled :: bool
  b_hidden :: bool
  b_placeholder :: string
  b_options :: "string list"
  b_validation :: field_validation

record field_overrides =
  o_key :: "string option"
  o_required :: "bool option"
  o_enabled :: "bool option"
  o_hidden :: "bool option"
  o_placeholder :: "string option"
  o_options :: "string list option"
  o_validation :: "field_validation option"

definition ensureFieldDefaults :: "builder_field \<Rightarrow> builder_field" where
  \<comment> \<open>the argument has no id yet: \<open>b_id\<close> is passed through and set by the caller\<close>
  "ensureFieldDefaults field =
     field\<lparr> b_key := or_str (b_key field) (normalizeKey (or_str (b_label field) ''field'')),
            b_label := or_str (b_label field) ''Field'' \<rparr>"

definition buildTemplateField :: "string \<Rightarrow> field_type \<Rightarrow> field_overrides \<Rightarrow> builder_field" where
  \<comment> \<open>the overrides the call sites pass (none of them overrides label or type)\<close>
  "buildTemplateField label ty overrides =
     ensureFieldDefaults
       \<lparr> b_id = [],
         b_key = (case o_key overrides of
                    Some k \<Rightarrow> k
                  | None \<Rightarrow> normalizeKey label),
         b_label = label,
         b_type = ty,
         b_required = (case o_required overrides of Some r \<Rightarrow> r | None \<Rightarrow> False),
         b_enabled = (case o_enabled overrides of Some e \<Rightarrow> e | None \<Rightarrow> True),
         b_hidden = (case o_hidden overrides of Some h \<Rightarrow> h | None \<Rightarrow> False),
         b_placeholder = (case o_placeholder overrides of Some q \<Rightarrow> q | None \<Rightarrow> []),
         b_options = (case o_options overrides of Some os \<Rightarrow> os | None \<Rightarrow> []),
         b_validation = (case o_validation overrides of
                           Some v \<Rightarrow> v
                         | None \<Rightarrow> \<lparr> minLength = None, emailFormat = None \<rparr>) \<rparr>"

definition next_key :: "string list \<Rightarrow> builder_field \<Rightarrow> string" where
  \<comment> \<open>the body of the \<open>map\<close> callback of \<open>ensureUniqueKeys\<close> up to \<open>used.add\<close>\<close>
  "next_key used field =
     (let base = normalizeKey (or_str (b_key field) (or_str (b_label field) ''field''));
          nextKey = or_str base ''field''
      in if nextKey \<in> set used then suffix_loop used (or_str base ''field'') ''_'' 1 else nextKey)"

fun unique_keys_from :: "string list \<Rightarrow> builder_field list \<Rightarrow> builder_field list" where
  \<comment> \<open>\<open>fields.map(...)\<close> with the set \<open>used\<close> threaded through\<close>
  "unique_keys_from used [] = []"
| "unique_keys_from used (field # rest) =
     (let nextKey = next_key used field
      in field\<lparr> b_key := nextKey \<rparr> # unique_keys_from (nextKey # used) rest)"

definition ensureUniqueKeys :: "builder_field list \<Rightarrow> builder_field list" where
  "ensureUniqueKeys fs = unique_keys_from [] fs"

definition handleAddField :: "builder_field list \<Rightarrow> builder_field \<Rightarrow> string \<Rightarrow> builder_field list" where
  \<comment> \<open>\<open>setFields((prev) => ensureUniqueKeys([...prev, next]))\<close>; \<open>new_id\<close> is what
      \<open>createId()\<close> returns\<close>
  "handleAddField prev field new_id =
     ensureUniqueKeys (prev @ [(ensureFieldDefaults field)\<lparr> b_id := new_id \<rparr>])"

section \<open>Profile service: the in-memory store\<close>

text \<open>
  The store of \<open>profile-service.ts\<close> when no database is configured: the module-level maps
  \<open>memoryProfiles\<close> and \<open>memoryAccounts\<close>. A function that mutates them takes the store and
  returns the new one next to its result; a function that throws returns \<open>Inl\<close> next to the
  store as the throw leaves it. Timestamps are the strings \<open>toISOString()\<close> returns, where
  \<open>localeCompare\<close> is the order of the code units; random identifiers and the clock are
  the inputs of a call (\<open>call_env\<close>). \<open>cloneDeep\<close> is the identity on values.
\<close>

record profile_link =
  l_id :: string
  l_profile_id :: string
  l_user_id :: string
  l_title :: string
  l_url :: string
  l_order_index :: int
  l_is_active :: bool
  l_created_at :: string
  l_updated_at :: string

record profile =
  p_id :: string
  p_user_id :: string
  p_name :: string
  p_handle :: string
  p_headline :: "string option"
  p_theme :: string
  p_is_active :: bool
  p_created_at :: string
  p_updated_at :: string
  p_links :: "profile_link list"

record payload_link =
  pl_id :: "string option"
  pl_title :: string
  pl_url :: string

record profile_payload =
  py_id :: "string option"
  py_name :: string
  py_handle :: string
  py_headline :: "string option"
  py_theme :: "string option"
  py_links :: "payload_link list option"
  py_active :: "bool option"

record account_record =
  a_user_id :: string
  a_username :: string
  a_display_name :: "string option"
  a_avatar_url :: "string option"
  a_avatar_updated_at :: "string option"

record store =
  memoryProfiles :: "string \<rightharpoonup> profile list"
  memoryAccounts :: "(string \<times> account_record) list"

record call_env =
  t_save :: string  \<comment> \<open>\<open>now\<close> of \<open>memorySaveProfileForUser\<close>\<close>
  t_single :: string  \<comment> \<open>\<open>now\<close> of \<open>memoryEnsureSingleActiveProfile\<close>\<close>
  t_has :: string  \<comment> \<open>the clock read by \<open>memoryEnsureHasActiveProfile\<close>\<close>
  rand_profile :: string  \<comment> \<open>\<open>randomId()\<close> for a new profile\<close>
  rand_link :: "nat \<Rightarrow> string"  \<comment> \<open>\<open>randomId()\<close> for the link at an index\<close>
  rand_account :: string  \<comment> \<open>\<open>randomId()\<close> of \<open>generateMemoryHandle\<close>\<close>

datatype error = NameRequired | HandleRequired | ProfileNotFound

fun error_message :: "error \<Rightarrow> string" where
  "error_message NameRequired = ''Profile name is required''"
| "error_message HandleRequired = ''Handle is required''"
| "error_message ProfileNotFound = ''Profile not found''"

definition normaliseHandle :: "string \<Rightarrow> string" where
  "normaliseHandle handle = toLowerCase (trim handle)"

definition normaliseTheme :: "string option \<Rightarrow> string" where
  "normaliseTheme theme =
     (let allowed = [''light'', ''dark'', ''midnight'', ''forest'', ''gilded'', ''silver'', ''autumn''];
          v = toLowerCase (case theme of None \<Rightarrow> ''light'' | Some t \<Rightarrow> t)
      in if v \<in> set allowed then v else ''light'')"

definition localeCompare :: "string \<Rightarrow> string \<Rightarrow> int" where
  "localeCompare a b = (if a < b then - 1 else if b < a then 1 else 0)"

fun insert_by :: "('a \<Rightarrow> 'a \<Rightarrow> int) \<Rightarrow> 'a \<Rightarrow> 'a list \<Rightarrow> 'a list" where
  "insert_by cmp x [] = [x]"
| "insert_by cmp x (y # ys) = (if cmp x y \<le> 0 then x # y # ys else y # insert_by cmp x ys)"

definition sort_by :: "('a \<Rightarrow> 'a \<Rightarrow> int) \<Rightarrow> 'a list \<Rightarrow> 'a list" where
  \<comment> \<open>\<open>Array.prototype.sort\<close> with a comparator: a stable sort\<close>
  "sort_by cmp xs = foldr (insert_by cmp) xs []"

fun findIndex :: "('a \<Rightarrow> bool) \<Rightarrow> 'a list \<Rightarrow> nat option" where
  \<comment> \<open>\<open>None\<close> is the \<open>-1\<close> of \<open>Array.prototype.findIndex\<close>\<close>
  "findIndex P [] = None"
| "findIndex P (x # xs) = (if P x then Some 0 else map_option Suc (findIndex P xs))"

definition generateMemoryHandle :: "store \<Rightarrow> string \<Rightarrow> string option \<Rightarrow> call_env \<Rightarrow> string" where
  "generateMemoryHandle s userId preferred e =
     (let base = normaliseHandle (case preferred of None \<Rightarrow> [] | Some h \<Rightarrow> h);
          seed = or_str base (''user-'' @ or_str (take 8 userId) (take 8 (rand_account e)));
          existing = map (\<lambda>kv. a_username (snd kv)) (memoryAccounts s)
      in if seed \<in> set existing then suffix_loop existing seed ''-'' 1 else seed)"

definition ensureMemoryAccountRecord ::
  "store \<Rightarrow> string \<Rightarrow> string option \<Rightarrow> string option \<Rightarrow> call_env \<Rightarrow> account_record \<times> store" where
  "ensureMemoryAccountRecord s userId fallbackHandle displayName e =
     (case map_of (memoryAccounts s) userId of
        Some existing \<Rightarrow>
          if (case displayName of None \<Rightarrow> False | Some d \<Rightarrow> d \<noteq> [])
             \<and> (case a_display_name existing of None \<Rightarrow> True | Some d \<Rightarrow> d = [])
          then (existing\<lparr> a_display_name := displayName \<rparr>,
                s\<lparr> memoryAccounts :=
                     AList.update userId (existing\<lparr> a_display_name := displayName \<rparr>)
                       (memoryAccounts s) \<rparr>)
          else (existing, s)
      | None \<Rightarrow>
          (let record = \<lparr> a_user_id = userId,
                          a_username = generateMemoryHandle s userId fallbackHandle e,
                          a_display_name = displayName,
                          a_avatar_url = None,
                          a_avatar_updated_at = None \<rparr>
           in (record, s\<lparr> memoryAccounts := AList.update userId record (memoryAccounts s) \<rparr>)))"

definition ensureMemoryProfiles :: "store \<Rightarrow> string \<Rightarrow> profile list \<times> store" where
  "ensureMemoryProfiles s userId =
     (case memoryProfiles s userId of
        Some profiles \<Rightarrow> (profiles, s)
      | None \<Rightarrow> ([], s\<lparr> memoryProfiles := (memoryProfiles s)(userId \<mapsto> []) \<rparr>))"

definition set_profiles :: "store \<Rightarrow> string \<Rightarrow> profile list \<Rightarrow> store" where
  \<comment> \<open>the array of \<open>userId\<close> after an in-place mutation\<close>
  "set_profiles s userId profiles = s\<lparr> memoryProfiles := (memoryProfiles s)(userId \<mapsto> profiles) \<rparr>"

definition memoryGetProfiles :: "store \<Rightarrow> string \<Rightarrow> profile list \<times> store" where
  "memoryGetProfiles s userId =
     (let (profiles, s1) = ensureMemoryProfiles s userId
      in (sort_by (\<lambda>a b. localeCompare (p_created_at a) (p_created_at b)) profiles, s1))"

definition memoryEnsureSingleActiveProfile ::
  "store \<Rightarrow> string \<Rightarrow> string \<Rightarrow> string \<Rightarrow> (error + unit) \<times> store" where
  "memoryEnsureSingleActiveProfile s userId desiredActiveProfileId now =
     (let (profiles, s1) = ensureMemoryProfiles s userId;
          found = list_ex (\<lambda>p. p_id p = desiredActiveProfileId) profiles;
          s2 = set_profiles s1 userId
                 (map (\<lambda>p. if p_id p = desiredActiveProfileId
                            then p\<lparr> p_is_active := True, p_updated_at := now \<rparr>
                            else p\<lparr> p_is_active := False \<rparr>) profiles)
      in (if \<not> found then Inl ProfileNotFound else Inr (), s2))"

definition memoryEnsureHasActiveProfile :: "store \<Rightarrow> string \<Rightarrow> string \<Rightarrow> store" where
  "memoryEnsureHasActiveProfile s userId now =
     (let (profiles, s1) = ensureMemoryProfiles s userId
      in case profiles of
           [] \<Rightarrow> s1
         | first # others \<Rightarrow>
             if \<not> list_ex p_is_active profiles
             then set_profiles s1 userId (first\<lparr> p_is_active := True, p_updated_at := now \<rparr> # others)
             else s1)"

definition save_upsert ::
  "string \<Rightarrow> profile_payload \<Rightarrow> call_env \<Rightarrow> string \<Rightarrow> string \<Rightarrow> string option \<Rightarrow> string
     \<Rightarrow> profile list \<Rightarrow> nat \<times> profile list" where
  \<comment> \<open>lines 314-338 of \<open>memorySaveProfileForUser\<close>: find the profile by the payload's id or
      push a new one; the result is the position of \<open>profile\<close> in the array, and the array\<close>
  "save_upsert userId payload e name handle headline theme profiles =
     (case (case py_id payload of
              None \<Rightarrow> None
            | Some i \<Rightarrow> if i \<noteq> [] then findIndex (\<lambda>p. p_id p = i) profiles else None) of
        None \<Rightarrow>
          (length profiles,
           profiles @ [\<lparr> p_id = rand_profile e, p_user_id = userId, p_name = name,
                         p_handle = handle, p_headline = headline, p_theme = theme,
                         p_is_active = False, p_created_at = t_save e, p_updated_at = t_save e,
                         p_links = [] \<rparr>])
      | Some k \<Rightarrow>
          (k, profiles[k := (profiles ! k)\<lparr> p_name := name, p_handle := handle,
                                            p_headline := headline, p_theme := theme,
                                            p_updated_at := t_save e \<rparr>]))"

definition save_links :: "string \<Rightarrow> profile \<Rightarrow> payload_link list \<Rightarrow> call_env \<Rightarrow> profile_link list" where
  \<comment> \<open>lines 340-356: the new value of \<open>profile.links\<close>; in \<open>existingLinks\<close> a later link of
      the same id wins, as in \<open>new Map(entries)\<close>\<close>
  "save_links userId prof links e =
     (let existingLinks = map_of (rev (map (\<lambda>l. (l_id l, l)) (p_links prof)))
      in map (\<lambda>(index, link).
           (let existing = (case pl_id link of
                              None \<Rightarrow> None
                            | Some i \<Rightarrow> if i \<noteq> [] then existingLinks i else None);
                given = (case pl_id link of None \<Rightarrow> [] | Some i \<Rightarrow> i)
            in \<lparr> l_id = or_str (case existing of None \<Rightarrow> [] | Some x \<Rightarrow> l_id x)
                          (or_str given (rand_link e index)),
                 l_profile_id = p_id prof,
                 l_user_id = userId,
                 l_title = or_str (trim (pl_title link)) (''Link '' @ show_nat (index + 1)),
                 l_url = or_str (trim (pl_url link)) [],
                 l_order_index = int index,
                 l_is_active = (case existing of None \<Rightarrow> True | Some x \<Rightarrow> l_is_active x),
                 l_created_at = or_str (case existing of None \<Rightarrow> [] | Some x \<Rightarrow> l_created_at x)
                                  (t_save e),
                 l_updated_at = t_save e \<rparr>))
         (enumerate 0 links))"

definition memorySaveProfileForUser ::
  "store \<Rightarrow> string \<Rightarrow> profile_payload \<Rightarrow> call_env \<Rightarrow> (error + profile) \<times> store" where
  \<comment> \<open>\<open>profile\<close> is the object at position \<open>k\<close> of the user's array from line 318 to the
      return\<close>
  "memorySaveProfileForUser s userId payload e =
     (let handle = normaliseHandle (py_handle payload);
          theme = normaliseTheme (py_theme payload);
          headline = (case py_headline payload of
                        None \<Rightarrow> None
                      | Some h \<Rightarrow> if trim h = [] then None else Some (trim h));
          links = (case py_links payload of None \<Rightarrow> [] | Some ls \<Rightarrow> ls);
          name = trim (py_name payload)
      in if name = [] then (Inl NameRequired, s)
         else if handle = [] then (Inl HandleRequired, s)
         else
           (let (profiles, s1) = ensureMemoryProfiles s userId;
                (k, profiles1) = save_upsert userId payload e name handle headline theme profiles;
                profiles2 = profiles1[k := (profiles1 ! k)
                              \<lparr> p_links := save_links userId (profiles1 ! k) links e \<rparr>];
                s2 = set_profiles s1 userId profiles2;
                s3 = snd (ensureMemoryAccountRecord s2 userId
                            (Some (p_handle (profiles2 ! k))) (Some (p_name (profiles2 ! k))) e);
                (r, s4) =
                  (if py_active payload = Some True
                   then memoryEnsureSingleActiveProfile s3 userId (p_id (profiles2 ! k)) (t_single e)
                   else (Inr (),
                         if \<not> list_ex p_is_active profiles2
                         then set_profiles s3 userId
                                (profiles2[k := (profiles2 ! k)\<lparr> p_is_active := True \<rparr>])
                         else s3))
            in case r of
                 Inl err \<Rightarrow> (Inl err, s4)
               | Inr u \<Rightarrow>
                   (let s5 = memoryEnsureHasActiveProfile s4 userId (t_has e);
                        (profiles5, s6) = ensureMemoryProfiles s5 userId
                    in (Inr (profiles5 ! k), s6))))"

definition memoryDeleteProfileForUser :: "store \<Rightarrow> string \<Rightarrow> string \<Rightarrow> string \<Rightarrow> store" where
  "memoryDeleteProfileForUser s userId profileId now =
     (let (profiles, s1) = ensureMemoryProfiles s userId
      in case findIndex (\<lambda>p. p_id p = profileId) profiles of
           None \<Rightarrow> s1
         | Some index \<Rightarrow>
             memoryEnsureHasActiveProfile
               (set_profiles s1 userId (take index profiles @ drop (Suc index) profiles))
               userId now)"

definition memorySetActiveProfileForUser ::
  "store \<Rightarrow> string \<Rightarrow> string \<Rightarrow> string \<Rightarrow> (error + profile) \<times> store" where
  "memorySetActiveProfileForUser s userId profileId now =
     (case memoryEnsureSingleActiveProfile s userId profileId now of
        (Inl err, s1) \<Rightarrow> (Inl err, s1)
      | (Inr u, s1) \<Rightarrow>
          (let (profiles, s2) = ensureMemoryProfiles s1 userId
           in case find (\<lambda>p. p_id p = profileId) profiles of
                None \<Rightarrow> (Inl ProfileNotFound, s2)
              | Some p \<Rightarrow> (Inr p, s2)))"

definition byOrder :: "profile_link \<Rightarrow> profile_link \<Rightarrow> int" where
  "byOrder a b =
     (if l_order_index a - l_order_index b \<noteq> 0 then l_order_index a - l_order_index b
      else localeCompare (l_created_at a) (l_created_at b))"

definition user_profiles :: "store \<Rightarrow> string \<Rightarrow> profile list" where
  \<comment> \<open>the profiles an account has: the array of the user, none when the key is absent\<close>
  "user_profiles s userId = (case memoryProfiles s userId of None \<Rightarrow> [] | Some ps \<Rightarrow> ps)"

definition active_count :: "store \<Rightarrow> string \<Rightarrow> nat" where
  "active_count s userId = length (filter p_is_active (user_profiles s userId))"

definition empty_store :: store where
  \<comment> \<open>the store when the module is loaded\<close>
  "empty_store = \<lparr> memoryProfiles = Map.empty, memoryAccounts = [] \<rparr>"

section \<open>Public lead form: submission\<close>

text \<open>
  \<open>onSubmit\<close> of \<open>PublicLeadForm.tsx\<close>. The component's state is a record; what the handler
  does to the world is the list of its effects, in order: toasts, the insert into the leads
  table, the requests to the capture and notification endpoints, the redirect. The results
  of the insert and of the fallback request are inputs. A field value is a string or a
  boolean; \<open>None\<close> is \<open>undefined\<close>. Field keys are taken not to name a property of
  \<open>Object.prototype\<close>.
\<close>

datatype answer = AStr string | ABool bool

record dynamic_field =
  d_id :: string
  d_key :: "string option"
  d_label :: string
  d_type :: field_type
  d_required :: bool
  d_placeholder :: "string option"
  d_options :: "string list option"
  d_is_hidden :: "bool option"
  d_order_index :: int

record form_settings =
  submitLabel :: string
  successMessage :: string
  redirectEnabled :: bool
  redirectUrl :: string
  consentEnabled :: bool
  consentLabel :: string
  spamProtection :: bool

record form_state =
  fs_fields :: "dynamic_field list"
  fs_answers :: "(string \<times> answer) list"
  fs_settings :: form_settings
  fs_consentChecked :: bool
  fs_trap :: string
  fs_loading :: bool

record form_props =
  ownerId :: "string option"
  form_handle :: string
  sourceUrl :: "string option"

record lead_row =
  r_user_id :: "string option"
  r_handle :: string
  r_name :: string
  r_email :: string
  r_phone :: "string option"
  r_company :: "string option"
  r_message :: "string option"
  r_source_url :: "string option"
  r_custom_fields :: "(string \<times> answer) list"

datatype toast_variant = Destructive | Success

datatype effect =
    Toast string string toast_variant  \<comment> \<open>title, description, variant\<close>
  | InsertLead lead_row  \<comment> \<open>\<open>supabase.from("leads").insert(payload)\<close>\<close>
  | PostSubmit lead_row  \<comment> \<open>\<open>fetch("/api/leads/submit")\<close>\<close>
  | PostNotify lead_row "string option"  \<comment> \<open>\<open>fetch("/api/leads/notify")\<close>, with the honeypot\<close>
  | Redirect string  \<comment> \<open>\<open>window.location.assign\<close>\<close>
  | ConsoleError
  | UncaughtTypeError  \<comment> \<open>the handler's promise rejects\<close>

datatype insert_result = InsertOk | InsertError string | InsertThrows string

datatype submit_response = RespOk | RespNotOk "string option" | FetchThrows string

record net_env =
  insert_result :: insert_result
  submit_response :: submit_response

definition truthy :: "answer option \<Rightarrow> bool" where
  "truthy v = (case v of None \<Rightarrow> False | Some (AStr s) \<Rightarrow> s \<noteq> [] | Some (ABool b) \<Rightarrow> b)"

definition or_js :: "answer option \<Rightarrow> answer option \<Rightarrow> answer option" where
  "or_js a b = (if truthy a then a else b)"

fun to_String :: "answer \<Rightarrow> string" where
  "to_String (AStr s) = s"
| "to_String (ABool b) = (if b then ''true'' else ''false'')"

fun trim_value :: "answer option \<Rightarrow> string option" where
  \<comment> \<open>\<open>v.trim()\<close>: a TypeError (\<open>None\<close>) unless \<open>v\<close> is a string\<close>
  "trim_value (Some (AStr s)) = Some (trim s)"
| "trim_value v = None"

definition fieldKey :: "dynamic_field \<Rightarrow> string" where
  "fieldKey field =
     normalizeKey (or_str (case d_key field of None \<Rightarrow> [] | Some k \<Rightarrow> k)
                     (or_str (d_label field) (d_id field)))"

definition validateRequired :: "form_state \<Rightarrow> string option" where
  \<comment> \<open>\<open>None\<close> is \<open>{ ok: true }\<close>, \<open>Some message\<close> is \<open>{ ok: false, message }\<close>\<close>
  "validateRequired st =
     (let missing = filter (\<lambda>field.
            d_required field \<and>
            (let v = map_of (fs_answers st) (fieldKey field)
             in if d_type field = FCheckbox then v \<noteq> Some (ABool True)
                else (case v of
                        None \<Rightarrow> True
                      | Some a \<Rightarrow> \<not> truthy v \<or> length (trim (to_String a)) = 0)))
          (fs_fields st)
      in if consentEnabled (fs_settings st) \<and> \<not> fs_consentChecked st
         then Some ''Please accept the consent checkbox.''
         else if missing \<noteq> [] then Some ''Please fill in the required fields.''
         else None)"

definition combineName :: "answer option \<Rightarrow> answer option \<Rightarrow> string" where
  \<comment> \<open>\<open>[first || "", last || ""].filter(Boolean).join(" ").trim()\<close>\<close>
  "combineName first_name last_name =
     trim (case filter (\<lambda>v. truthy (Some v))
                  [case or_js first_name (Some (AStr [])) of Some v \<Rightarrow> v | None \<Rightarrow> AStr [],
                   case or_js last_name (Some (AStr [])) of Some v \<Rightarrow> v | None \<Rightarrow> AStr []] of
             [] \<Rightarrow> []
           | [a] \<Rightarrow> to_String a
           | a # b # rest \<Rightarrow> to_String a @ '' '' @ to_String b)"

record lead_payload =
  lp_name :: string
  lp_email :: string
  lp_phone :: "string option"
  lp_company :: "string option"
  lp_message :: "string option"
  lp_customFields :: "(string \<times> answer) list"

definition form_values :: "form_state \<Rightarrow> (string \<times> answer) list" where
  \<comment> \<open>the object \<open>values\<close> that \<open>buildLeadPayload\<close> fills\<close>
  "form_values st =
     fold (\<lambda>field values.
             AList.update (fieldKey field)
               (case map_of (fs_answers st) (fieldKey field) of
                  Some v \<Rightarrow> v
                | None \<Rightarrow> if d_type field = FCheckbox then ABool False else AStr [])
               values)
          (fs_fields st) []"

definition nonempty :: "string \<Rightarrow> string option" where
  \<comment> \<open>\<open>s || null\<close>\<close>
  "nonempty s = (if s = [] then None else Some s)"

definition buildLeadPayload :: "form_state \<Rightarrow> lead_payload option" where
  \<comment> \<open>\<open>None\<close> when a \<open>.trim()\<close> meets a boolean and throws\<close>
  "buildLeadPayload st =
     (let values = form_values st;
          val = map_of values;
          nameValue = or_js (val ''name'')
                        (or_js (Some (AStr (combineName (val ''first_name'') (val ''last_name''))))
                           (or_js (val ''full_name'') (Some (AStr []))));
          emailValue = or_js (val ''email'') (Some (AStr []));
          phoneValue = or_js (val ''phone'') (Some (AStr []));
          companyValue = or_js (val ''company'') (or_js (val ''school'') (Some (AStr [])));
          messageValue = or_js (val ''message'') (or_js (val ''notes'') (Some (AStr [])))
      in case (trim_value nameValue, trim_value emailValue, trim_value phoneValue,
               trim_value companyValue, trim_value messageValue) of
           (Some n, Some em, Some ph, Some co, Some me) \<Rightarrow>
             Some \<lparr> lp_name = n, lp_email = em, lp_phone = nonempty ph,
                    lp_company = nonempty co, lp_message = nonempty me,
                    lp_customFields = values \<rparr>
         | _ \<Rightarrow> None)"

definition resetForm :: "form_state \<Rightarrow> form_state" where
  "resetForm st = st\<lparr> fs_answers := [], fs_consentChecked := False, fs_trap := [] \<rparr>"

definition success_toast :: "form_state \<Rightarrow> effect" where
  "success_toast st = Toast ''Thanks!'' (successMessage (fs_settings st)) Success"

definition has_owner :: "form_props \<Rightarrow> bool" where
  \<comment> \<open>\<open>ownerId\<close> is truthy\<close>
  "has_owner props = (case ownerId props of None \<Rightarrow> False | Some owner \<Rightarrow> owner \<noteq> [])"

definition submit_failed :: "form_state \<Rightarrow> string \<Rightarrow> form_state \<times> effect list" where
  \<comment> \<open>the \<open>catch\<close> and \<open>finally\<close> blocks of \<open>onSubmit\<close>, for an error with this message\<close>
  "submit_failed st msg =
     (st\<lparr> fs_loading := False \<rparr>, [ConsoleError, Toast ''Could not submit'' msg Destructive])"

definition submit_done :: "form_state \<Rightarrow> lead_row \<Rightarrow> form_state \<times> effect list" where
  \<comment> \<open>lines 312-322 and the \<open>finally\<close> block: the lead has been stored\<close>
  "submit_done st payload =
     ((resetForm st)\<lparr> fs_loading := False \<rparr>,
      [PostNotify payload (nonempty (fs_trap st)), success_toast st]
      @ (if redirectEnabled (fs_settings st) \<and> redirectUrl (fs_settings st) \<noteq> []
         then [Redirect (redirectUrl (fs_settings st))] else []))"

definition add_effects :: "effect list \<Rightarrow> form_state \<times> effect list \<Rightarrow> form_state \<times> effect list" where
  "add_effects earlier r = (fst r, earlier @ snd r)"

definition submit_lead :: "form_props \<Rightarrow> net_env \<Rightarrow> form_state \<Rightarrow> lead_payload \<Rightarrow> form_state \<times> effect list" where
  \<comment> \<open>lines 285-330: \<open>setLoading(true)\<close> and the \<open>try\<close> statement\<close>
  "submit_lead props net st payloadData =
     (let payload = \<lparr> r_user_id = ownerId props, r_handle = form_handle props,
                      r_name = lp_name payloadData, r_email = lp_email payloadData,
                      r_phone = lp_phone payloadData, r_company = lp_company payloadData,
                      r_message = lp_message payloadData, r_source_url = sourceUrl props,
                      r_custom_fields = lp_customFields payloadData \<rparr>
      in case insert_result net of
           InsertOk \<Rightarrow> add_effects [InsertLead payload] (submit_done st payload)
         | InsertThrows msg \<Rightarrow> add_effects [InsertLead payload] (submit_failed st msg)
         | InsertError insert_msg \<Rightarrow>
             add_effects [InsertLead payload, PostSubmit payload]
               (case submit_response net of
                  RespOk \<Rightarrow> submit_done st payload
                | RespNotOk info_error \<Rightarrow>
                    submit_failed st
                      (or_str (or_str (case info_error of None \<Rightarrow> [] | Some m \<Rightarrow> m) insert_msg)
                         ''Insert failed'')
                | FetchThrows msg \<Rightarrow> submit_failed st msg))"

definition onSubmit :: "form_props \<Rightarrow> net_env \<Rightarrow> form_state \<Rightarrow> form_state \<times> effect list" where
  "onSubmit props net st =
     (if \<not> has_owner props then (st, [Toast ''Unavailable'' ''Owner not found.'' Destructive])
      else
        (case validateRequired st of
           Some message \<Rightarrow> (st, [Toast ''Missing info'' message Destructive])
         | None \<Rightarrow>
             (if length (trim (fs_trap st)) > 0 then (resetForm st, [success_toast st])
              else
                (case buildLeadPayload st of
                   None \<Rightarrow> (st, [UncaughtTypeError])
                 | Some payloadData \<Rightarrow>
                     (if lp_name payloadData = [] \<or> lp_email payloadData = []
                      then (st, [Toast ''Missing info'' ''Name and email required.'' Destructive])
                      else submit_lead props net st payloadData)))))"

fun is_send :: "effect \<Rightarrow> bool" where
  \<comment> \<open>the effects that persist a lead or forward it to an endpoint\<close>
  "is_send (InsertLead row) = True"
| "is_send (PostSubmit row) = True"
| "is_send (PostNotify row hp) = True"
| "is_send eff = False"

section \<open>Profile editor: the autosave reconciler\<close>

text \<open>
  Lines 267-353 of \<open>PublicProfileEditorPage.tsx\<close>: the state of the component that the
  save path reads and writes, the ref \<open>autosavePending\<close>, the debounce timer (armed or
  not), and the requests that are in flight, each with the draft its \<open>handleSave\<close> closure
  captured. The drafts are any type \<open>'d\<close> of plain data, a response any type \<open>'r\<close>, and
  \<open>reconcile response draft\<close> stands for \<open>mergeProfileUi(mapProfile(response), draft)\<close>.
  A step is one event of the event loop together with the render it causes and the effects
  of that render; a callback sees the state of the last render. \<open>ed_sent\<close> logs the drafts
  of the requests sent so far.
\<close>

record 'd editor =
  ed_userId :: "string option"
  ed_draft :: "'d option"
  ed_savedProfile :: "'d option"
  ed_saving :: bool
  ed_saveError :: "string option"
  ed_autosavePending :: bool
  ed_autosaveTimer :: bool
  ed_inflight :: "'d list"
  ed_sent :: "'d list"

datatype ('d, 'r) event =
    Edit "'d \<Rightarrow> 'd"  \<comment> \<open>\<open>setDraft((prev) => ...)\<close> of an edit handler, on a draft that is loaded\<close>
  | TimerFires  \<comment> \<open>the 900 ms timeout runs its callback\<close>
  | RetrySave  \<comment> \<open>the retry button calls \<open>handleSave\<close>\<close>
  | SaveSucceeded 'r  \<comment> \<open>the request in flight is answered with \<open>res.ok\<close>\<close>
  | SaveFailed string  \<comment> \<open>the request in flight fails with this message\<close>

definition has_user :: "'d editor \<Rightarrow> bool" where
  "has_user e = (case ed_userId e of None \<Rightarrow> False | Some u \<Rightarrow> u \<noteq> [])"

definition isDirty :: "'d editor \<Rightarrow> bool" where
  \<comment> \<open>\<open>JSON.stringify(draft) !== JSON.stringify(savedProfile)\<close>\<close>
  "isDirty e =
     (case ed_draft e of
        None \<Rightarrow> False
      | Some d \<Rightarrow> (case ed_savedProfile e of None \<Rightarrow> False | Some sp \<Rightarrow> d \<noteq> sp))"

definition can_save :: "'d editor \<Rightarrow> bool" where
  \<comment> \<open>the guard \<open>draft && userId\<close> at the head of \<open>handleSave\<close>\<close>
  "can_save e = (ed_draft e \<noteq> None \<and> has_user e)"

definition timer_effect :: "'d editor \<Rightarrow> 'd editor" where
  \<comment> \<open>the effect of lines 332-353: clear the timer, and set a new one when the draft is dirty\<close>
  "timer_effect e = e\<lparr> ed_autosaveTimer := (ed_draft e \<noteq> None \<and> isDirty e \<and> has_user e) \<rparr>"

definition start_save :: "'d editor \<Rightarrow> 'd editor" where
  \<comment> \<open>lines 278-299 of \<open>handleSave\<close>, up to the \<open>await\<close>, and the render that
      \<open>setSaving(true)\<close> causes\<close>
  "start_save e =
     (case ed_draft e of
        None \<Rightarrow> e
      | Some d \<Rightarrow>
          timer_effect (e\<lparr> ed_autosavePending := False, ed_saving := True, ed_saveError := None,
                           ed_inflight := ed_inflight e @ [d], ed_sent := ed_sent e @ [d] \<rparr>))"

definition handleSave :: "'d editor \<Rightarrow> 'd editor" where
  "handleSave e =
     (if \<not> can_save e then e
      else if ed_saving e then e\<lparr> ed_autosavePending := True \<rparr>
      else start_save e)"

definition pending_effect :: "'d editor \<Rightarrow> 'd editor" where
  \<comment> \<open>the effect of lines 325-330\<close>
  "pending_effect e =
     (if \<not> ed_saving e \<and> ed_autosavePending e \<and> ed_draft e \<noteq> None \<and> isDirty e \<and> has_user e
      then handleSave (e\<lparr> ed_autosavePending := False \<rparr>) else e)"

definition after_render :: "'d editor \<Rightarrow> 'd editor" where
  \<comment> \<open>the two effects, in the order of their declaration\<close>
  "after_render e = timer_effect (pending_effect e)"

fun step :: "('r \<Rightarrow> 'd \<Rightarrow> 'd) \<Rightarrow> 'd editor \<Rightarrow> ('d, 'r) event \<Rightarrow> 'd editor option" where
  \<comment> \<open>\<open>None\<close>: the event cannot happen in this state\<close>
  "step reconcile e (Edit f) =
     (case ed_draft e of
        None \<Rightarrow> None
      | Some d \<Rightarrow> Some (after_render (e\<lparr> ed_draft := Some (f d) \<rparr>)))"
| "step reconcile e TimerFires =
     (if ed_autosaveTimer e then Some (handleSave (e\<lparr> ed_autosaveTimer := False \<rparr>)) else None)"
| "step reconcile e RetrySave = Some (handleSave e)"
| "step reconcile e (SaveSucceeded response) =
     (case ed_inflight e of
        [] \<Rightarrow> None
      | d # others \<Rightarrow>
          Some (after_render (e\<lparr> ed_draft := Some (reconcile response d),
                                 ed_savedProfile := Some (reconcile response d),
                                 ed_saving := False, ed_inflight := others \<rparr>)))"
| "step reconcile e (SaveFailed message) =
     (case ed_inflight e of
        [] \<Rightarrow> None
      | d # others \<Rightarrow>
          Some (after_render (e\<lparr> ed_saveError := Some message, ed_saving := False,
                                 ed_inflight := others \<rparr>)))"

fun run :: "('r \<Rightarrow> 'd \<Rightarrow> 'd) \<Rightarrow> 'd editor \<Rightarrow> ('d, 'r) event list \<Rightarrow> 'd editor option" where
  "run reconcile e [] = Some e"
| "run reconcile e (ev # evs) =
     (case step reconcile e ev of None \<Rightarrow> None | Some e' \<Rightarrow> run reconcile e' evs)"

definition loaded :: "string \<Rightarrow> 'd \<Rightarrow> 'd editor" where
  \<comment> \<open>the editor after \<open>loadProfile\<close>: the draft and the saved profile are the loaded one\<close>
  "loaded u d = \<lparr> ed_userId = Some u, ed_draft = Some d, ed_savedProfile = Some d,
                  ed_saving = False, ed_saveError = None, ed_autosavePending = False,
                  ed_autosaveTimer = False, ed_inflight = [], ed_sent = [] \<rparr>"

section \<open>Views of the state used in the proofs\<close>

text \<open>
  The operations of the store read on the list of one account (\<open>user_profiles\<close>), the
  invariant of the active flag on such a list, and the invariant of the editor.
\<close>

definition ensure_single_list :: "string \<Rightarrow> string \<Rightarrow> profile list \<Rightarrow> profile list" where
  "ensure_single_list desired now ps =
     map (\<lambda>p. if p_id p = desired then p\<lparr> p_is_active := True, p_updated_at := now \<rparr>
               else p\<lparr> p_is_active := False \<rparr>) ps"

definition ensure_has_list :: "string \<Rightarrow> profile list \<Rightarrow> profile list" where
  "ensure_has_list now ps =
     (case ps of
        [] \<Rightarrow> []
      | first # others \<Rightarrow>
          if \<not> list_ex p_is_active ps
          then first\<lparr> p_is_active := True, p_updated_at := now \<rparr> # others else ps)"

definition save_args_upsert :: "string \<Rightarrow> profile_payload \<Rightarrow> call_env \<Rightarrow> profile list \<Rightarrow> nat \<times> profile list" where
  \<comment> \<open>\<open>save_upsert\<close> at the normalised fields of the payload\<close>
  "save_args_upsert u pay e ps =
     save_upsert u pay e (trim (py_name pay)) (normaliseHandle (py_handle pay))
       (case py_headline pay of None \<Rightarrow> None | Some h \<Rightarrow> if trim h = [] then None else Some (trim h))
       (normaliseTheme (py_theme pay)) ps"

definition save_list :: "string \<Rightarrow> profile_payload \<Rightarrow> call_env \<Rightarrow> profile list \<Rightarrow> nat \<times> profile list" where
  "save_list userId payload e ps =
     (let up = save_args_upsert userId payload e ps;
          k = fst up;
          ps2 = (snd up)[k := (snd up ! k)
                   \<lparr> p_links := save_links userId (snd up ! k)
                        (case py_links payload of None \<Rightarrow> [] | Some ls \<Rightarrow> ls) e \<rparr>];
          ps4 = (if py_active payload = Some True
                 then ensure_single_list (p_id (ps2 ! k)) (t_single e) ps2
                 else if \<not> list_ex p_is_active ps2
                      then ps2[k := (ps2 ! k)\<lparr> p_is_active := True \<rparr>] else ps2)
      in (k, ensure_has_list (t_has e) ps4))"

definition single_active :: "profile list \<Rightarrow> bool" where
  "single_active ps = (length (filter p_is_active ps) = (if ps = [] then 0 else 1))"

definition single_flight :: "'d editor \<Rightarrow> bool" where
  \<comment> \<open>at most one request is in flight, and \<open>saving\<close> says whether one is\<close>
  "single_flight e = (length (ed_inflight e) \<le> 1 \<and> (ed_saving e = (ed_inflight e \<noteq> [])))"

section \<open>Concrete states and inputs\<close>

definition env_1 :: call_env where
  "env_1 = \<lparr> t_save = ''2024-01-01T00:00:00.000Z'', t_single = ''2024-01-01T00:00:00.001Z'',
             t_has = ''2024-01-01T00:00:00.002Z'', rand_profile = ''p1'',
             rand_link = (\<lambda>i. ''l1-'' @ show_nat i), rand_account = ''r1'' \<rparr>"

definition env_2 :: call_env where
  "env_2 = \<lparr> t_save = ''2024-01-02T00:00:00.000Z'', t_single = ''2024-01-02T00:00:00.001Z'',
             t_has = ''2024-01-02T00:00:00.002Z'', rand_profile = ''p2'',
             rand_link = (\<lambda>i. ''l2-'' @ show_nat i), rand_account = ''r2'' \<rparr>"

definition env_3 :: call_env where
  "env_3 = \<lparr> t_save = ''2024-01-03T00:00:00.000Z'', t_single = ''2024-01-03T00:00:00.001Z'',
             t_has = ''2024-01-03T00:00:00.002Z'', rand_profile = ''p3'',
             rand_link = (\<lambda>i. ''l3-'' @ show_nat i), rand_account = ''r3'' \<rparr>"

definition jess_payload :: profile_payload where
  "jess_payload = \<lparr> py_id = None, py_name = ''Jess'', py_handle = ''jess'', py_headline = None,
       py_theme = None,
       py_links = Some [\<lparr> pl_id = None, pl_title = ''Site'', pl_url = ''https://jess.dev'' \<rparr>],
       py_active = None \<rparr>"

definition work_payload :: profile_payload where
  "work_payload = \<lparr> py_id = None, py_name = ''Work'', py_handle = ''jess-work'',
       py_headline = None, py_theme = None, py_links = None, py_active = Some True \<rparr>"

definition store_1 :: store where
  \<comment> \<open>account \<open>acc_1\<close> after its first save: one profile, \<open>p1\<close>, active\<close>
  "store_1 = snd (memorySaveProfileForUser empty_store ''acc_1'' jess_payload env_1)"

definition links_AB :: "payload_link list" where
  "links_AB = [\<lparr> pl_id = None, pl_title = ''A'', pl_url = ''https://a'' \<rparr>,
               \<lparr> pl_id = None, pl_title = ''B'', pl_url = ''https://b'' \<rparr>]"

definition relink_payload :: profile_payload where
  \<comment> \<open>an update of profile \<open>p1\<close> that replaces its links\<close>
  "relink_payload = \<lparr> py_id = Some ''p1'', py_name = ''Jess'', py_handle = ''jess'',
       py_headline = None, py_theme = None, py_links = Some links_AB, py_active = None \<rparr>"

definition plain_payload :: "string \<Rightarrow> string \<Rightarrow> profile_payload" where
  "plain_payload name handle = \<lparr> py_id = None, py_name = name, py_handle = handle,
       py_headline = None, py_theme = None, py_links = None, py_active = None \<rparr>"

definition store_3 :: store where
  "store_3 = snd (memorySaveProfileForUser
               (snd (memorySaveProfileForUser store_1 ''acc_1'' (plain_payload ''Work'' ''work'') env_2))
               ''acc_1'' (plain_payload ''Side'' ''side'') env_3)"

definition handle_payload_1 :: profile_payload where
  "handle_payload_1 = \<lparr> py_id = None, py_name = ''First'', py_handle = '' My-Handle '',
       py_headline = None, py_theme = None, py_links = None, py_active = None \<rparr>"

definition handle_payload_2 :: profile_payload where
  "handle_payload_2 = \<lparr> py_id = None, py_name = ''Second'', py_handle = ''MY-HANDLE'',
       py_headline = None, py_theme = None, py_links = None, py_active = None \<rparr>"

definition email_field :: builder_field where
  "email_field = buildTemplateField ''Email'' FEmail
     \<lparr> o_key = Some ''email'', o_required = Some True, o_enabled = None, o_hidden = None,
       o_placeholder = None, o_options = None, o_validation = None \<rparr>"

definition demo_settings :: form_settings where
  "demo_settings = \<lparr> submitLabel = ''Send'', successMessage = ''Thanks! I will reach out soon.'',
      redirectEnabled = False, redirectUrl = [], consentEnabled = True,
      consentLabel = ''I agree to share my info.'', spamProtection = False \<rparr>"

definition demo_fields :: "dynamic_field list" where
  "demo_fields =
     [\<lparr> d_id = ''f1'', d_key = Some ''name'', d_label = ''Name'', d_type = FText,
        d_required = True, d_placeholder = None, d_options = None, d_is_hidden = None,
        d_order_index = 1 \<rparr>,
      \<lparr> d_id = ''f2'', d_key = Some ''email'', d_label = ''Email'', d_type = FEmail,
        d_required = True, d_placeholder = None, d_options = None, d_is_hidden = None,
        d_order_index = 2 \<rparr>]"

definition demo_props :: form_props where
  "demo_props = \<lparr> ownerId = Some ''owner-1'', form_handle = ''jess'',
                  sourceUrl = Some ''https://linket.test/jess'' \<rparr>"

definition bot_state :: form_state where
  \<comment> \<open>every field and the hidden input filled in, the consent box left unchecked\<close>
  "bot_state = \<lparr> fs_fields = demo_fields,
      fs_answers = [(''name'', AStr ''Bot''), (''email'', AStr ''bot@spam.test'')],
      fs_settings = demo_settings, fs_consentChecked = False, fs_trap = ''http://spam.test'',
      fs_loading = False \<rparr>"

definition net_ok :: net_env where
  "net_ok = \<lparr> insert_result = InsertOk, submit_response = RespOk \<rparr>"

section \<open>The store seen as one list of profiles per account\<close>

lemma fst_ensureMemoryProfiles [simp]: "fst (ensureMemoryProfiles s u) = user_profiles s u"
  by (simp add: ensureMemoryProfiles_def user_profiles_def split: option.splits)

lemma user_profiles_ensureMemoryProfiles [simp]:
  "user_profiles (snd (ensureMemoryProfiles s u)) v = user_profiles s v"
  by (simp add: ensureMemoryProfiles_def user_profiles_def split: option.splits)

lemma user_profiles_set_profiles [simp]:
  "user_profiles (set_profiles s u ps) v = (if v = u then ps else user_profiles s v)"
  by (simp add: set_profiles_def user_profiles_def)

lemma user_profiles_account [simp]:
  "user_profiles (snd (ensureMemoryAccountRecord s u h d e)) v = user_profiles s v"
  by (simp add: ensureMemoryAccountRecord_def user_profiles_def Let_def split: option.splits)

lemma list_ex_id_iff: "list_ex (\<lambda>p. p_id p = i) ps \<longleftrightarrow> i \<in> p_id ` set ps"
  by (induction ps) auto

lemma fst_ensure_single [simp]:
  "fst (memoryEnsureSingleActiveProfile s u d now) =
     (if d \<in> p_id ` set (user_profiles s u) then Inr () else Inl ProfileNotFound)"
  by (simp add: memoryEnsureSingleActiveProfile_def case_prod_beta Let_def list_ex_id_iff)

lemma user_profiles_ensure_single [simp]:
  "user_profiles (snd (memoryEnsureSingleActiveProfile s u d now)) v =
     (if v = u then ensure_single_list d now (user_profiles s u) else user_profiles s v)"
  by (simp add: memoryEnsureSingleActiveProfile_def case_prod_beta Let_def ensure_single_list_def)

lemma user_profiles_ensure_has [simp]:
  "user_profiles (memoryEnsureHasActiveProfile s u now) v =
     (if v = u then ensure_has_list now (user_profiles s u) else user_profiles s v)"
  by (cases "user_profiles s u")
     (simp_all add: memoryEnsureHasActiveProfile_def case_prod_beta Let_def ensure_has_list_def)

lemma findIndex_Some: "findIndex P xs = Some k \<Longrightarrow> k < length xs \<and> P (xs ! k)"
proof (induction xs arbitrary: k)
  case Nil
  then show ?case by simp
next
  case (Cons x xs)
  then show ?case by (cases "P x") auto
qed

lemma save_upsert_index:
  "fst (save_upsert u pay e n h hl th ps) < length (snd (save_upsert u pay e n h hl th ps))"
  by (auto simp: save_upsert_def split: option.splits dest: findIndex_Some)

lemma nth_id_mem [simp]:
  "k < length ps \<Longrightarrow> p_id (ps ! k) \<in> p_id ` set (ps[k := (ps ! k)\<lparr> p_links := ls \<rparr>])"
proof -
  assume k: "k < length ps"
  then have "(ps[k := (ps ! k)\<lparr> p_links := ls \<rparr>]) ! k \<in> set (ps[k := (ps ! k)\<lparr> p_links := ls \<rparr>])"
    by (intro nth_mem) simp
  then have "p_id ((ps[k := (ps ! k)\<lparr> p_links := ls \<rparr>]) ! k) \<in> p_id ` set (ps[k := (ps ! k)\<lparr> p_links := ls \<rparr>])"
    by (rule imageI)
  with k show ?thesis by simp
qed

lemma save_refines:
  assumes name: "trim (py_name pay) \<noteq> []" and handle: "normaliseHandle (py_handle pay) \<noteq> []"
  shows "fst (memorySaveProfileForUser s u pay e)
           = Inr (snd (save_list u pay e (user_profiles s u)) ! fst (save_list u pay e (user_profiles s u)))"
    and "user_profiles (snd (memorySaveProfileForUser s u pay e)) v
           = (if v = u then snd (save_list u pay e (user_profiles s u)) else user_profiles s v)"
proof -
  note idx = save_upsert_index [of u pay e "trim (py_name pay)" "normaliseHandle (py_handle pay)"
     "case py_headline pay of None \<Rightarrow> None | Some h \<Rightarrow> if trim h = [] then None else Some (trim h)"
     "normaliseTheme (py_theme pay)" "user_profiles s u"]
  show "fst (memorySaveProfileForUser s u pay e)
           = Inr (snd (save_list u pay e (user_profiles s u)) ! fst (save_list u pay e (user_profiles s u)))"
  proof (cases "py_active pay = Some True")
    case True
    then show ?thesis using name handle idx
      by (simp add: memorySaveProfileForUser_def save_list_def save_args_upsert_def Let_def case_prod_beta)
  next
    case False
    then show ?thesis using name handle idx
      by (simp add: memorySaveProfileForUser_def save_list_def save_args_upsert_def Let_def case_prod_beta)
  qed
  show "user_profiles (snd (memorySaveProfileForUser s u pay e)) v
           = (if v = u then snd (save_list u pay e (user_profiles s u)) else user_profiles s v)"
  proof (cases "py_active pay = Some True")
    case True
    then show ?thesis using name handle idx
      by (simp add: memorySaveProfileForUser_def save_list_def save_args_upsert_def Let_def case_prod_beta)
  next
    case False
    then show ?thesis using name handle idx
      by (simp add: memorySaveProfileForUser_def save_list_def save_args_upsert_def Let_def case_prod_beta)
  qed
qed

lemma ensure_single_list_ids [simp]: "map p_id (ensure_single_list d now ps) = map p_id ps"
  by (simp add: ensure_single_list_def)

lemma ensure_single_list_links [simp]: "map p_links (ensure_single_list d now ps) = map p_links ps"
  by (simp add: ensure_single_list_def)

lemma ensure_has_list_ids [simp]: "map p_id (ensure_has_list now ps) = map p_id ps"
  by (simp add: ensure_has_list_def split: list.splits)

lemma ensure_has_list_length [simp]: "length (ensure_has_list now ps) = length ps"
  by (simp add: ensure_has_list_def split: list.splits)

lemma ensure_single_list_length [simp]: "length (ensure_single_list d now ps) = length ps"
  by (simp add: ensure_single_list_def)

lemma ensure_has_list_links [simp]: "map p_links (ensure_has_list now ps) = map p_links ps"
  by (simp add: ensure_has_list_def split: list.splits)

lemma map_update_same:
  "k < length ps \<Longrightarrow> f x = f (ps ! k) \<Longrightarrow> map f (ps[k := x]) = map f ps"
  by (simp add: map_update list_update_same_conv)

lemma nth_of_map_eq: "map f xs = map f ys \<Longrightarrow> k < length xs \<Longrightarrow> f (xs ! k) = f (ys ! k)"
  by (metis length_map nth_map)

lemma save_upsert_ids:
  "map p_id (snd (save_upsert u pay e n h hl th ps)) = map p_id ps
   \<or> map p_id (snd (save_upsert u pay e n h hl th ps)) = map p_id ps @ [rand_profile e]"
  by (auto simp: save_upsert_def map_update_same split: option.splits dest: findIndex_Some)

lemma save_list_shape:
  fixes u pay e ps
  defines "up \<equiv> save_args_upsert u pay e ps"
  shows "fst (save_list u pay e ps) = fst up"
    and "map p_id (snd (save_list u pay e ps)) = map p_id (snd up)"
    and "p_links (snd (save_list u pay e ps) ! fst up)
           = save_links u (snd up ! fst up) (case py_links pay of None \<Rightarrow> [] | Some ls \<Rightarrow> ls) e"
proof -
  have k: "fst up < length (snd up)"
    unfolding up_def save_args_upsert_def by (rule save_upsert_index)
  define ps2 where "ps2 = (snd up)[fst up := (snd up ! fst up)
       \<lparr> p_links := save_links u (snd up ! fst up)
                      (case py_links pay of None \<Rightarrow> [] | Some ls \<Rightarrow> ls) e \<rparr>]"
  define ps4 where "ps4 = (if py_active pay = Some True
                 then ensure_single_list (p_id (ps2 ! fst up)) (t_single e) ps2
                 else if \<not> list_ex p_is_active ps2
                      then ps2[fst up := (ps2 ! fst up)\<lparr> p_is_active := True \<rparr>] else ps2)"
  have sl: "save_list u pay e ps = (fst up, ensure_has_list (t_has e) ps4)"
    by (simp add: save_list_def Let_def up_def ps2_def ps4_def)
  have k2: "fst up < length ps2" using k by (simp add: ps2_def)
  have ids2: "map p_id ps2 = map p_id (snd up)"
    unfolding ps2_def using k by (simp add: map_update_same)
  have ids4: "map p_id ps4 = map p_id ps2"
    unfolding ps4_def using k2 by (simp add: map_update_same)
  have links4: "map p_links ps4 = map p_links ps2"
    unfolding ps4_def using k2 by (simp add: map_update_same)
  show "fst (save_list u pay e ps) = fst up" by (simp add: sl)
  show "map p_id (snd (save_list u pay e ps)) = map p_id (snd up)"
    by (simp add: sl ids4 ids2)
  have len: "length (ensure_has_list (t_has e) ps4) = length ps2"
    unfolding ps4_def by simp
  have "p_links (ensure_has_list (t_has e) ps4 ! fst up) = p_links (ps2 ! fst up)"
  proof (rule nth_of_map_eq)
    show "map p_links (ensure_has_list (t_has e) ps4) = map p_links ps2" by (simp add: links4)
    show "fst up < length (ensure_has_list (t_has e) ps4)" using len k2 by simp
  qed
  also have "\<dots> = save_links u (snd up ! fst up)
                      (case py_links pay of None \<Rightarrow> [] | Some ls \<Rightarrow> ls) e"
    using k by (simp add: ps2_def)
  finally show "p_links (snd (save_list u pay e ps) ! fst up)
           = save_links u (snd up ! fst up) (case py_links pay of None \<Rightarrow> [] | Some ls \<Rightarrow> ls) e"
    by (simp add: sl)
qed

lemma insert_by_set: "set (insert_by cmp x xs) = insert x (set xs)"
  by (induction xs) auto

lemma sort_by_set: "set (sort_by cmp xs) = set xs"
  by (induction xs) (simp_all add: sort_by_def insert_by_set)

lemma find_by_distinct_key:
  assumes "distinct (map f xs)" and "x \<in> set xs" and "set ys = set xs"
  shows "find (\<lambda>y. f y = f x) ys = Some x"
proof -
  from assms(2,3) have "\<exists>y\<in>set ys. f y = f x" by auto
  then obtain q where q: "find (\<lambda>y. f y = f x) ys = Some q"
    by (cases "find (\<lambda>y. f y = f x) ys") (auto simp: find_None_iff)
  then have "q \<in> set ys" and "f q = f x"
    by (auto simp: find_Some_iff)
  with assms have "q = x"
    by (metis distinct_map inj_on_eq_iff)
  with q show ?thesis by simp
qed

lemma save_list_Nil:
  "\<exists>p. save_list u pay e [] = (0, [p]) \<and> p_is_active p \<and> p_id p = rand_profile e"
  by (cases "py_id pay"; cases "py_active pay = Some True")
     (simp_all add: save_list_def save_args_upsert_def save_upsert_def Let_def
        ensure_single_list_def ensure_has_list_def)

lemma save_list_single_active:
  assumes "py_id pay \<noteq> Some (p_id p1)" and "py_active pay = Some True"
    and "rand_profile e \<noteq> p_id p1"
  shows "\<exists>p. save_list u pay e [p1] = (1, [p1\<lparr> p_is_active := False \<rparr>, p])
           \<and> p_is_active p \<and> p_id p = rand_profile e"
  using assms
  by (cases "py_id pay")
     (simp_all add: save_list_def save_args_upsert_def save_upsert_def Let_def
        ensure_single_list_def ensure_has_list_def)

lemma list_ex_id_mem: "list_ex (\<lambda>p. p_id p = i) ps \<longleftrightarrow> i \<in> set (map p_id ps)"
  by (induction ps) auto

subsection \<open>Counting the active profiles\<close>

lemma list_ex_active_iff: "list_ex p_is_active ps \<longleftrightarrow> filter p_is_active ps \<noteq> []"
  by (induction ps) auto

lemma ensure_single_list_none:
  "d \<notin> p_id ` set ps \<Longrightarrow> filter p_is_active (ensure_single_list d now ps) = []"
  by (induction ps) (auto simp: ensure_single_list_def)

lemma ensure_single_list_one:
  "distinct (map p_id ps) \<Longrightarrow> d \<in> p_id ` set ps
     \<Longrightarrow> length (filter p_is_active (ensure_single_list d now ps)) = 1"
proof (induction ps)
  case Nil
  then show ?case by simp
next
  case (Cons p ps)
  show ?case
  proof (cases "p_id p = d")
    case True
    with Cons.prems have "d \<notin> p_id ` set ps" by auto
    from ensure_single_list_none [OF this, of now] True show ?thesis
      by (simp add: ensure_single_list_def)
  next
    case False
    with Cons show ?thesis by (auto simp: ensure_single_list_def)
  qed
qed

lemma ensure_has_list_single:
  "length (filter p_is_active ps) \<le> 1 \<Longrightarrow> single_active (ensure_has_list now ps)"
proof (cases ps)
  case Nil
  then show ?thesis by (simp add: ensure_has_list_def single_active_def)
next
  case (Cons p rest)
  assume le: "length (filter p_is_active ps) \<le> 1"
  show ?thesis
  proof (cases "filter p_is_active ps = []")
    case True
    with Cons show ?thesis
      by (auto simp: ensure_has_list_def single_active_def list_ex_active_iff split: if_splits)
  next
    case False
    then have "length (filter p_is_active ps) = 1"
      using le by (cases "filter p_is_active ps") auto
    with False Cons show ?thesis
      by (simp add: ensure_has_list_def single_active_def list_ex_active_iff)
  qed
qed

lemma filter_remove_nth_le:
  "length (filter P (take i xs @ drop (Suc i) xs)) \<le> length (filter P xs)"
proof -
  have "length (filter P xs) = length (filter P (take i xs)) + length (filter P (drop i xs))"
    by (metis append_take_drop_id filter_append length_append)
  moreover have "length (filter P (drop (Suc i) xs)) \<le> length (filter P (drop i xs))"
  proof (cases "i < length xs")
    case True
    then have "drop i xs = xs ! i # drop (Suc i) xs" by (rule Cons_nth_drop_Suc [symmetric])
    then show ?thesis by simp
  next
    case False
    then show ?thesis by simp
  qed
  ultimately show ?thesis by simp
qed

lemma user_profiles_delete:
  "user_profiles (memoryDeleteProfileForUser s u pid now) u =
     (case findIndex (\<lambda>p. p_id p = pid) (user_profiles s u) of
        None \<Rightarrow> user_profiles s u
      | Some i \<Rightarrow> ensure_has_list now (take i (user_profiles s u) @ drop (Suc i) (user_profiles s u)))"
  by (simp add: memoryDeleteProfileForUser_def case_prod_beta split: option.splits)

lemma delete_keeps_single_active:
  assumes "single_active (user_profiles s u)"
  shows "single_active (user_profiles (memoryDeleteProfileForUser s u pid now) u)"
proof (cases "findIndex (\<lambda>p. p_id p = pid) (user_profiles s u)")
  case None
  with assms show ?thesis by (simp add: user_profiles_delete)
next
  case (Some i)
  have "length (filter p_is_active (user_profiles s u)) \<le> 1"
    using assms by (simp add: single_active_def split: if_splits)
  then have "length (filter p_is_active
                (take i (user_profiles s u) @ drop (Suc i) (user_profiles s u))) \<le> 1"
    using filter_remove_nth_le [of p_is_active i "user_profiles s u"] by simp
  then show ?thesis using Some by (simp add: user_profiles_delete ensure_has_list_single)
qed

lemma set_active_known_id:
  assumes "distinct (map p_id (user_profiles s u))" and "pid \<in> p_id ` set (user_profiles s u)"
  shows "\<exists>p s'. memorySetActiveProfileForUser s u pid now = (Inr p, s')
           \<and> p_id p = pid \<and> p_is_active p
           \<and> single_active (user_profiles s' u)
           \<and> map p_id (user_profiles s' u) = map p_id (user_profiles s u)"
proof -
  define ps' where "ps' = ensure_single_list pid now (user_profiles s u)"
  have one: "length (filter p_is_active ps') = 1"
    unfolding ps'_def using assms by (rule ensure_single_list_one)
  then have ne: "ps' \<noteq> []" by auto
  have "pid \<in> p_id ` set ps'"
    using assms(2) ensure_single_list_ids [of pid now "user_profiles s u"]
    by (metis ps'_def set_map)
  then obtain p where p: "find (\<lambda>p. p_id p = pid) ps' = Some p"
    by (cases "find (\<lambda>p. p_id p = pid) ps'") (auto simp: find_None_iff)
  then have pp: "p_id p = pid" "p \<in> set ps'" by (auto simp: find_Some_iff)
  from pp(2) obtain q where q: "q \<in> set (user_profiles s u)"
    and pq: "p = (if p_id q = pid then q\<lparr> p_is_active := True, p_updated_at := now \<rparr>
                  else q\<lparr> p_is_active := False \<rparr>)"
    unfolding ps'_def ensure_single_list_def by auto
  have "p_is_active p"
  proof (cases "p_id q = pid")
    case True
    with pq show ?thesis by simp
  next
    case False
    with pq pp(1) show ?thesis by simp
  qed
  moreover have "memorySetActiveProfileForUser s u pid now
        = (Inr p, snd (ensureMemoryProfiles (snd (memoryEnsureSingleActiveProfile s u pid now)) u))"
  proof -
    obtain r s1 where rs: "memoryEnsureSingleActiveProfile s u pid now = (r, s1)"
      by (cases "memoryEnsureSingleActiveProfile s u pid now")
    have r: "r = Inr ()"
      using fst_ensure_single [of s u pid now] assms(2) rs by simp
    have u1: "user_profiles s1 u = ps'"
      using user_profiles_ensure_single [of s u pid now u] rs by (simp add: ps'_def)
    show ?thesis
      using p by (simp add: memorySetActiveProfileForUser_def rs r u1 case_prod_beta)
  qed
  moreover have "user_profiles (snd (ensureMemoryProfiles (snd (memoryEnsureSingleActiveProfile s u pid now)) u)) u = ps'"
    by (simp add: ps'_def)
  ultimately show ?thesis using one ne pp(1)
    by (simp add: single_active_def ps'_def)
qed

lemma count_of_flags:
  "length (filter (\<lambda>b. b) (map p_is_active xs)) = length (filter p_is_active xs)"
  by (induction xs) simp_all

lemma count_by_flags:
  assumes "map p_is_active xs = map p_is_active ys @ zs"
  shows "length (filter p_is_active xs) = length (filter p_is_active ys) + length (filter (\<lambda>b. b) zs)"
proof -
  have "length (filter p_is_active xs) = length (filter (\<lambda>b. b) (map p_is_active xs))"
    by (rule count_of_flags [symmetric])
  also have "\<dots> = length (filter (\<lambda>b. b) (map p_is_active ys @ zs))"
    by (simp only: assms)
  also have "\<dots> = length (filter (\<lambda>b. b) (map p_is_active ys)) + length (filter (\<lambda>b. b) zs)"
    by (simp only: filter_append length_append)
  finally show ?thesis by (simp only: count_of_flags)
qed

lemma save_upsert_flags:
  "map p_is_active (snd (save_upsert u pay e n h hl th ps)) = map p_is_active ps @ []
   \<or> map p_is_active (snd (save_upsert u pay e n h hl th ps)) = map p_is_active ps @ [False]"
  by (auto simp: save_upsert_def map_update_same split: option.splits dest: findIndex_Some)

lemma save_upsert_count:
  "length (filter p_is_active (snd (save_upsert u pay e n h hl th ps))) = length (filter p_is_active ps)"
  using save_upsert_flags [of u pay e n h hl th ps]
proof
  assume "map p_is_active (snd (save_upsert u pay e n h hl th ps)) = map p_is_active ps @ []"
  from count_by_flags [OF this] show ?thesis by simp
next
  assume "map p_is_active (snd (save_upsert u pay e n h hl th ps)) = map p_is_active ps @ [False]"
  from count_by_flags [OF this] show ?thesis by simp
qed

lemma activate_one_of_none:
  assumes "filter P xs = []" and "k < length xs" and "P x"
  shows "length (filter P (xs[k := x])) = 1"
proof -
  have a: "filter P (take k xs) = []"
    using assms(1) by (auto simp: filter_empty_conv dest: in_set_takeD)
  have b: "filter P (drop (Suc k) xs) = []"
    using assms(1) by (auto simp: filter_empty_conv dest: in_set_dropD)
  show ?thesis
    using assms(2,3) a b by (simp add: upd_conv_take_nth_drop)
qed

lemma save_list_single_active_inv:
  assumes ids: "distinct (map p_id ps)" and fresh: "rand_profile e \<notin> p_id ` set ps"
    and inv: "length (filter p_is_active ps) \<le> 1"
  shows "single_active (snd (save_list u pay e ps))"
    and "distinct (map p_id (snd (save_list u pay e ps)))"
proof -
  define up where "up = save_args_upsert u pay e ps"
  have k: "fst up < length (snd up)"
    unfolding up_def save_args_upsert_def by (rule save_upsert_index)
  define ps2 where "ps2 = (snd up)[fst up := (snd up ! fst up)
       \<lparr> p_links := save_links u (snd up ! fst up)
                      (case py_links pay of None \<Rightarrow> [] | Some ls \<Rightarrow> ls) e \<rparr>]"
  define ps4 where "ps4 = (if py_active pay = Some True
                 then ensure_single_list (p_id (ps2 ! fst up)) (t_single e) ps2
                 else if \<not> list_ex p_is_active ps2
                      then ps2[fst up := (ps2 ! fst up)\<lparr> p_is_active := True \<rparr>] else ps2)"
  have sl: "snd (save_list u pay e ps) = ensure_has_list (t_has e) ps4"
    by (simp add: save_list_def Let_def up_def ps2_def ps4_def)
  have k2: "fst up < length ps2" using k by (simp add: ps2_def)
  have ids_up: "distinct (map p_id (snd up))"
    using save_upsert_ids [of u pay e "trim (py_name pay)" "normaliseHandle (py_handle pay)"
        "case py_headline pay of None \<Rightarrow> None | Some h \<Rightarrow> if trim h = [] then None else Some (trim h)"
        "normaliseTheme (py_theme pay)" ps] ids fresh
    by (auto simp: up_def save_args_upsert_def)
  have ids2: "map p_id ps2 = map p_id (snd up)"
    unfolding ps2_def using k by (simp add: map_update_same)
  have flags2: "map p_is_active ps2 = map p_is_active (snd up)"
    unfolding ps2_def using k by (simp add: map_update_same)
  have "length (filter p_is_active ps2) = length (filter p_is_active (snd up))"
    using count_by_flags [of ps2 "snd up" "[]"] flags2 by simp
  also have "\<dots> = length (filter p_is_active ps)"
    unfolding up_def save_args_upsert_def by (rule save_upsert_count)
  finally have count2: "length (filter p_is_active ps2) \<le> 1"
    using inv by simp
  have ids4: "map p_id ps4 = map p_id ps2"
    unfolding ps4_def using k2 by (simp add: map_update_same)
  have count4: "length (filter p_is_active ps4) \<le> 1"
  proof (cases "py_active pay = Some True")
    case True
    have "length (filter p_is_active (ensure_single_list (p_id (ps2 ! fst up)) (t_single e) ps2)) = 1"
      by (rule ensure_single_list_one) (use ids2 ids_up k2 in simp_all)
    with True show ?thesis by (simp add: ps4_def)
  next
    case False
    show ?thesis
    proof (cases "list_ex p_is_active ps2")
      case True
      with False count2 show ?thesis by (simp add: ps4_def)
    next
      case none: False
      then have "filter p_is_active ps2 = []" by (simp add: list_ex_active_iff)
      from activate_one_of_none [OF this k2, of "(ps2 ! fst up)\<lparr> p_is_active := True \<rparr>"]
      show ?thesis using False none by (simp add: ps4_def)
    qed
  qed
  show "single_active (snd (save_list u pay e ps))"
    unfolding sl using count4 by (rule ensure_has_list_single)
  show "distinct (map p_id (snd (save_list u pay e ps)))"
    by (simp add: sl ids4 ids2 ids_up)
qed

lemma save_keeps_single_active:
  assumes name: "trim (py_name pay) \<noteq> []" and handle: "normaliseHandle (py_handle pay) \<noteq> []"
    and ids: "distinct (map p_id (user_profiles s u))"
    and fresh: "rand_profile e \<notin> p_id ` set (user_profiles s u)"
    and inv: "single_active (user_profiles s u)"
  shows "single_active (user_profiles (snd (memorySaveProfileForUser s u pay e)) u)
         \<and> distinct (map p_id (user_profiles (snd (memorySaveProfileForUser s u pay e)) u))
         \<and> user_profiles (snd (memorySaveProfileForUser s u pay e)) u \<noteq> []"
proof -
  have le: "length (filter p_is_active (user_profiles s u)) \<le> 1"
    using inv by (simp add: single_active_def split: if_splits)
  have "length (snd (save_list u pay e (user_profiles s u)))
          = length (snd (save_args_upsert u pay e (user_profiles s u)))"
    using arg_cong [OF save_list_shape(2) [of u pay e "user_profiles s u"], of length] by simp
  moreover have "fst (save_args_upsert u pay e (user_profiles s u))
                   < length (snd (save_args_upsert u pay e (user_profiles s u)))"
    unfolding save_args_upsert_def by (rule save_upsert_index)
  ultimately have "snd (save_list u pay e (user_profiles s u)) \<noteq> []" by auto
  then show ?thesis
    using save_list_single_active_inv [OF ids fresh le, of u pay]
    by (simp add: save_refines(2) [OF name handle])
qed

lemma failed_save_changes_nothing:
  assumes "trim (py_name pay) = [] \<or> normaliseHandle (py_handle pay) = []"
  shows "snd (memorySaveProfileForUser s u pay e) = s
         \<and> (\<exists>err. fst (memorySaveProfileForUser s u pay e) = Inl err)"
proof (cases "trim (py_name pay) = []")
  case True
  then show ?thesis by (simp add: memorySaveProfileForUser_def Let_def)
next
  case False
  with assms have "normaliseHandle (py_handle pay) = []" by simp
  with False show ?thesis by (simp add: memorySaveProfileForUser_def Let_def)
qed

lemma delete_active_of_two_promotes_other:
  assumes "user_profiles s u = [P1, P2]" and "p_is_active P1" and "\<not> p_is_active P2"
    and "p_id P1 \<noteq> p_id P2"
  shows "user_profiles (memoryDeleteProfileForUser s u (p_id P1) now) u
           = [P2\<lparr> p_is_active := True, p_updated_at := now \<rparr>]"
  using assms by (simp add: user_profiles_delete ensure_has_list_def)

subsection \<open>The stored handle\<close>

lemma ensure_single_list_handles [simp]: "map p_handle (ensure_single_list d now ps) = map p_handle ps"
  by (simp add: ensure_single_list_def)

lemma ensure_has_list_handles [simp]: "map p_handle (ensure_has_list now ps) = map p_handle ps"
  by (simp add: ensure_has_list_def split: list.splits)

lemma save_upsert_handle:
  "p_handle (snd (save_upsert u pay e n h hl th ps) ! fst (save_upsert u pay e n h hl th ps)) = h"
  by (auto simp: save_upsert_def split: option.splits dest: findIndex_Some)

lemma save_list_handle:
  "p_handle (snd (save_list u pay e ps) ! fst (save_list u pay e ps)) = normaliseHandle (py_handle pay)"
proof -
  define up where "up = save_args_upsert u pay e ps"
  have k: "fst up < length (snd up)"
    unfolding up_def save_args_upsert_def by (rule save_upsert_index)
  define ps2 where "ps2 = (snd up)[fst up := (snd up ! fst up)
       \<lparr> p_links := save_links u (snd up ! fst up)
                      (case py_links pay of None \<Rightarrow> [] | Some ls \<Rightarrow> ls) e \<rparr>]"
  define ps4 where "ps4 = (if py_active pay = Some True
                 then ensure_single_list (p_id (ps2 ! fst up)) (t_single e) ps2
                 else if \<not> list_ex p_is_active ps2
                      then ps2[fst up := (ps2 ! fst up)\<lparr> p_is_active := True \<rparr>] else ps2)"
  have sl: "save_list u pay e ps = (fst up, ensure_has_list (t_has e) ps4)"
    by (simp add: save_list_def Let_def up_def ps2_def ps4_def)
  have k2: "fst up < length ps2" using k by (simp add: ps2_def)
  have h2: "map p_handle ps2 = map p_handle (snd up)"
    unfolding ps2_def using k by (simp add: map_update_same)
  have h4: "map p_handle ps4 = map p_handle ps2"
    unfolding ps4_def using k2 by (simp add: map_update_same)
  have "p_handle (ensure_has_list (t_has e) ps4 ! fst up) = p_handle (snd up ! fst up)"
  proof (rule nth_of_map_eq)
    show "map p_handle (ensure_has_list (t_has e) ps4) = map p_handle (snd up)"
      by (simp add: h4 h2)
    show "fst up < length (ensure_has_list (t_has e) ps4)"
      using k2 arg_cong [OF h4, of length] by simp
  qed
  also have "\<dots> = normaliseHandle (py_handle pay)"
    unfolding up_def save_args_upsert_def by (rule save_upsert_handle)
  finally show ?thesis by (simp add: sl)
qed

lemma saved_handle_is_normalised:
  assumes "trim (py_name pay) \<noteq> []" and "normaliseHandle (py_handle pay) \<noteq> []"
  shows "\<exists>p. fst (memorySaveProfileForUser s u pay e) = Inr p
           \<and> p_handle p = normaliseHandle (py_handle pay)"
  by (simp add: save_refines(1) [OF assms] save_list_handle)

lemma normalise_my_handle:
  "normaliseHandle '' My-Handle '' = ''my-handle''" "normaliseHandle ''MY-HANDLE'' = ''my-handle''"
  by code_simp+

section \<open>Lemmas about the lead forms and the editor\<close>

lemma suffix_loop_fresh: "suffix_loop used seed sep counter \<notin> set used"
proof (induction used seed sep counter rule: suffix_loop.induct)
  case (1 used seed sep counter)
  show ?case
  proof (cases "seed @ sep @ show_nat counter \<in> set used")
    case True
    with "1.IH" [OF refl True] show ?thesis
      by (subst suffix_loop.simps) (simp add: Let_def)
  next
    case False
    then show ?thesis
      by (subst suffix_loop.simps) (simp add: Let_def)
  qed
qed

lemma next_key_fresh: "next_key used field \<notin> set used"
  by (simp add: next_key_def Let_def suffix_loop_fresh)

lemma unique_keys_from_keys:
  "distinct (map b_key (unique_keys_from used fs))
   \<and> set (map b_key (unique_keys_from used fs)) \<inter> set used = {}"
proof (induction fs arbitrary: used)
  case Nil
  show ?case by simp
next
  case (Cons field rest)
  from Cons.IH [of "next_key used field # used"] next_key_fresh [of used field]
  show ?case by (auto simp: Let_def)
qed

lemma honeypot_guard:
  assumes "length (trim (fs_trap st)) > 0"
  shows "onSubmit props net st =
           (if \<not> has_owner props then (st, [Toast ''Unavailable'' ''Owner not found.'' Destructive])
            else case validateRequired st of
                   Some message \<Rightarrow> (st, [Toast ''Missing info'' message Destructive])
                 | None \<Rightarrow> (resetForm st, [success_toast st]))"
  using assms by (simp add: onSubmit_def split: option.splits)

lemma genuine_submission_success:
  assumes "has_owner props" and "validateRequired st = None" and "trim (fs_trap st) = []"
    and "buildLeadPayload st = Some pd" and "lp_name pd \<noteq> []" and "lp_email pd \<noteq> []"
    and "insert_result net = InsertOk"
  shows "fst (onSubmit props net st) = (resetForm st)\<lparr> fs_loading := False \<rparr>
         \<and> success_toast st \<in> set (snd (onSubmit props net st))"
  using assms by (simp add: onSubmit_def submit_lead_def submit_done_def add_effects_def Let_def)

lemma single_flight_timer_effect [simp]: "single_flight (timer_effect e) = single_flight e"
  by (simp add: single_flight_def timer_effect_def)

lemma single_flight_handleSave: "single_flight e \<Longrightarrow> single_flight (handleSave e)"
  by (cases "ed_draft e")
     (auto simp: handleSave_def start_save_def single_flight_def can_save_def timer_effect_def)

lemma single_flight_pending_flag [simp]:
  "single_flight (e\<lparr> ed_autosavePending := b \<rparr>) = single_flight e"
  by (simp add: single_flight_def)

lemma single_flight_timer_flag [simp]:
  "single_flight (e\<lparr> ed_autosaveTimer := b \<rparr>) = single_flight e"
  by (simp add: single_flight_def)

lemma single_flight_after_render: "single_flight e \<Longrightarrow> single_flight (after_render e)"
  by (simp add: after_render_def pending_effect_def single_flight_handleSave)

lemma single_flight_step:
  assumes "single_flight e" and "step reconcile e ev = Some e'"
  shows "single_flight e'"
proof (cases ev)
  case (Edit f)
  with assms obtain d where d: "ed_draft e = Some d"
    and e': "e' = after_render (e\<lparr> ed_draft := Some (f d) \<rparr>)"
    by (cases "ed_draft e") auto
  have "single_flight (e\<lparr> ed_draft := Some (f d) \<rparr>)"
    using assms(1) by (simp add: single_flight_def)
  then show ?thesis unfolding e' by (rule single_flight_after_render)
next
  case TimerFires
  with assms show ?thesis
    by (auto split: if_splits intro!: single_flight_handleSave)
next
  case RetrySave
  with assms show ?thesis by (auto intro!: single_flight_handleSave)
next
  case (SaveSucceeded r)
  with assms obtain d where i: "ed_inflight e = [d]"
    by (cases "ed_inflight e") (auto simp: single_flight_def)
  have "single_flight (e\<lparr> ed_draft := Some (reconcile r d), ed_savedProfile := Some (reconcile r d),
           ed_saving := False, ed_inflight := [] \<rparr>)"
    by (simp add: single_flight_def)
  then show ?thesis using assms SaveSucceeded i
    by (auto intro: single_flight_after_render)
next
  case (SaveFailed m)
  with assms obtain d where i: "ed_inflight e = [d]"
    by (cases "ed_inflight e") (auto simp: single_flight_def)
  have "single_flight (e\<lparr> ed_saveError := Some m, ed_saving := False, ed_inflight := [] \<rparr>)"
    by (simp add: single_flight_def)
  then show ?thesis using assms SaveFailed i
    by (auto intro: single_flight_after_render)
qed

lemma single_flight_run:
  "single_flight e \<Longrightarrow> run reconcile e evs = Some e' \<Longrightarrow> single_flight e'"
proof (induction evs arbitrary: e)
  case Nil
  then show ?case by simp
next
  case (Cons ev evs)
  then show ?case
    by (auto split: option.splits dest: single_flight_step)
qed

lemma at_most_one_save_in_flight:
  "run reconcile (loaded u d) evs = Some e \<Longrightarrow> length (ed_inflight e) \<le> 1"
  using single_flight_run [of "loaded u d" reconcile evs e]
  by (simp add: single_flight_def loaded_def)

lemma failed_save_is_followed_by_one_save_of_the_latest_draft:
  assumes "ed_inflight e = [d0]" and "ed_saving e" and "ed_autosavePending e"
    and "ed_draft e = Some d" and "isDirty e" and "has_user e"
  shows "\<exists>e'. step reconcile e (SaveFailed m) = Some e'
           \<and> ed_inflight e' = [d] \<and> ed_sent e' = ed_sent e @ [d] \<and> \<not> ed_autosavePending e'"
  using assms
  by (simp add: after_render_def pending_effect_def handleSave_def start_save_def can_save_def
        timer_effect_def isDirty_def has_user_def)

lemma trim_A_B:
  "trim ''A'' = ''A''" "trim ''B'' = ''B''"
  "trim ''https://a'' = ''https://a''" "trim ''https://b'' = ''https://b''"
  by (simp_all add: trim_def is_ws_def)

lemma save_links_AB:
  "map l_title (save_links u prof links_AB e) = [''A'', ''B'']"
  "map l_url (save_links u prof links_AB e) = [''https://a'', ''https://b'']"
  "map l_order_index (save_links u prof links_AB e) = [0, 1]"
  "sort_by byOrder (save_links u prof links_AB e) = save_links u prof links_AB e"
  by (simp_all add: save_links_def links_AB_def Let_def enumerate_eq_zip trim_A_B or_str_def
        sort_by_def byOrder_def upt_rec)

section \<open>Claims\<close>

text \<open>
  Claim C1. After every save, activate and delete on an account's profiles, exactly one
  profile is active when the account has a profile, and none otherwise. The store keeps
  this over every save that returns, every delete and every activate of a profile of the
  account (\<open>save_keeps_single_active\<close>, \<open>delete_keeps_single_active\<close>,
  \<open>set_active_known_id\<close>), and breaks it on an activate of an unknown id: from the account
  \<open>acc_1\<close> with its one active profile, \<open>memorySetActiveProfileForUser\<close> with the id \<open>ghost\<close>
  throws and leaves one profile and no active one, and a following delete of an unknown id
  returns with the store still so.
\<close>

theorem failed_activate_breaks_single_active:
  "(case memorySetActiveProfileForUser store_1 ''acc_1'' ''ghost'' ''2024-01-05T00:00:00.000Z'' of
      (r, s') \<Rightarrow>
        active_count store_1 ''acc_1'' = 1
        \<and> r = Inl ProfileNotFound
        \<and> length (user_profiles s' ''acc_1'') = 1
        \<and> active_count s' ''acc_1'' = 0
        \<and> length (user_profiles (memoryDeleteProfileForUser s' ''acc_1'' ''ghost'' ''2024-01-06T00:00:00.000Z'') ''acc_1'') = 1
        \<and> active_count (memoryDeleteProfileForUser s' ''acc_1'' ''ghost'' ''2024-01-06T00:00:00.000Z'') ''acc_1'' = 0)"
  by code_simp

text \<open>
  Claim C2. Deleting the active profile of an account with at least two profiles promotes
  the most recently updated of the remaining ones. The store promotes the first remaining
  profile of the array instead: with \<open>p1\<close> active and \<open>p3\<close> updated after \<open>p2\<close>, deleting \<open>p1\<close>
  makes \<open>p2\<close> active. With two profiles the other one is promoted
  (\<open>delete_active_of_two_promotes_other\<close>).
\<close>

theorem delete_active_promotes_first_not_latest:
  "map (\<lambda>p. (p_id p, p_is_active p, p_updated_at p)) (user_profiles store_3 ''acc_1'')
     = [(''p1'', True, ''2024-01-01T00:00:00.000Z''),
        (''p2'', False, ''2024-01-02T00:00:00.000Z''),
        (''p3'', False, ''2024-01-03T00:00:00.000Z'')]
   \<and> map (\<lambda>p. (p_id p, p_is_active p))
         (user_profiles (memoryDeleteProfileForUser store_3 ''acc_1'' ''p1'' ''2024-01-04T00:00:00.000Z'') ''acc_1'')
     = [(''p2'', True), (''p3'', False)]
   \<and> ''2024-01-02T00:00:00.000Z'' < ''2024-01-03T00:00:00.000Z''"
  by code_simp

text \<open>
  Claim C3. For an account with no profiles, a save whose payload does not set \<open>active\<close>
  creates the profile with \<open>is_active = true\<close>; a following save that creates a second
  profile with \<open>active = true\<close> leaves the first profile inactive and the new one active.
  Both payloads carry a name and a handle that are not blank, and the second random id is
  not the first one.
\<close>

theorem first_profile_auto_activates_second_takes_over:
  assumes none: "user_profiles s userId = []"
    and name1: "trim (py_name pay1) \<noteq> []"
    and handle1: "normaliseHandle (py_handle pay1) \<noteq> []"
    and unset1: "py_active pay1 = None"
    and name2: "trim (py_name pay2) \<noteq> []"
    and handle2: "normaliseHandle (py_handle pay2) \<noteq> []"
    and new2: "py_id pay2 \<noteq> Some (rand_profile e1)"
    and active2: "py_active pay2 = Some True"
    and fresh: "rand_profile e2 \<noteq> rand_profile e1"
  shows "\<exists>p1 s1 p2 s2.
           memorySaveProfileForUser s userId pay1 e1 = (Inr p1, s1)
           \<and> p_is_active p1 \<and> user_profiles s1 userId = [p1]
           \<and> memorySaveProfileForUser s1 userId pay2 e2 = (Inr p2, s2)
           \<and> user_profiles s2 userId = [p1\<lparr> p_is_active := False \<rparr>, p2]
           \<and> p_is_active p2"
proof -
  obtain p1 where l1: "save_list userId pay1 e1 [] = (0, [p1])"
    and a1: "p_is_active p1" and i1: "p_id p1 = rand_profile e1"
    using save_list_Nil by blast
  define s1 where "s1 = snd (memorySaveProfileForUser s userId pay1 e1)"
  have r1: "memorySaveProfileForUser s userId pay1 e1 = (Inr p1, s1)"
    using save_refines(1) [OF name1 handle1, of s userId e1] none l1
    by (simp add: s1_def prod_eq_iff)
  have u1: "user_profiles s1 userId = [p1]"
    using save_refines(2) [OF name1 handle1, of s userId e1 userId] none l1
    by (simp add: s1_def)
  obtain p2 where l2: "save_list userId pay2 e2 [p1] = (1, [p1\<lparr> p_is_active := False \<rparr>, p2])"
    and a2: "p_is_active p2"
    using save_list_single_active [of pay2 p1 e2 userId] new2 active2 fresh i1 by auto
  define s2 where "s2 = snd (memorySaveProfileForUser s1 userId pay2 e2)"
  have r2: "memorySaveProfileForUser s1 userId pay2 e2 = (Inr p2, s2)"
    using save_refines(1) [OF name2 handle2, of s1 userId e2] u1 l2
    by (simp add: s2_def prod_eq_iff)
  have u2: "user_profiles s2 userId = [p1\<lparr> p_is_active := False \<rparr>, p2]"
    using save_refines(2) [OF name2 handle2, of s1 userId e2 userId] u1 l2
    by (simp add: s2_def)
  from r1 a1 u1 r2 u2 a2 show ?thesis by blast
qed

theorem first_profile_auto_activates_second_takes_over_witness:
  "user_profiles empty_store ''acc_1'' = []
   \<and> trim (py_name jess_payload) \<noteq> []
   \<and> normaliseHandle (py_handle jess_payload) \<noteq> []
   \<and> py_active jess_payload = None
   \<and> trim (py_name work_payload) \<noteq> []
   \<and> normaliseHandle (py_handle work_payload) \<noteq> []
   \<and> py_id work_payload \<noteq> Some (rand_profile env_1)
   \<and> py_active work_payload = Some True
   \<and> rand_profile env_2 \<noteq> rand_profile env_1
   \<and> (\<exists>p1 s1 p2 s2.
         memorySaveProfileForUser empty_store ''acc_1'' jess_payload env_1 = (Inr p1, s1)
         \<and> p_is_active p1 \<and> user_profiles s1 ''acc_1'' = [p1]
         \<and> memorySaveProfileForUser s1 ''acc_1'' work_payload env_2 = (Inr p2, s2)
         \<and> user_profiles s2 ''acc_1'' = [p1\<lparr> p_is_active := False \<rparr>, p2]
         \<and> p_is_active p2)"
proof -
  have h1: "user_profiles empty_store ''acc_1'' = []" by code_simp
  have h2: "trim (py_name jess_payload) \<noteq> []" by code_simp
  have h3: "normaliseHandle (py_handle jess_payload) \<noteq> []" by code_simp
  have h4: "py_active jess_payload = None" by code_simp
  have h5: "trim (py_name work_payload) \<noteq> []" by code_simp
  have h6: "normaliseHandle (py_handle work_payload) \<noteq> []" by code_simp
  have h7: "py_id work_payload \<noteq> Some (rand_profile env_1)" by code_simp
  have h8: "py_active work_payload = Some True" by code_simp
  have h9: "rand_profile env_2 \<noteq> rand_profile env_1" by code_simp
  from first_profile_auto_activates_second_takes_over [OF h1 h2 h3 h4 h5 h6 h7 h8 h9]
  show ?thesis using h1 h2 h3 h4 h5 h6 h7 h8 h9 by blast
qed

text \<open>
  Claim C4. A save stores the handle trimmed and in lower case, and a save of another
  profile of the account whose normalised handle is already taken fails as a duplicate. The
  store normalises the handle (\<open>saved_handle_is_normalised\<close>), \<open>" My-Handle "\<close> to
  \<open>my-handle\<close>, and then accepts \<open>MY-HANDLE\<close> for a second profile: both saves return a
  profile and the account holds two profiles with the handle \<open>my-handle\<close>.
\<close>

theorem duplicate_handle_is_persisted:
  "(case memorySaveProfileForUser empty_store ''acc_1'' handle_payload_1 env_1 of
      (r1, s1) \<Rightarrow>
        (case memorySaveProfileForUser s1 ''acc_1'' handle_payload_2 env_2 of
           (r2, s2) \<Rightarrow>
             map_sum error_message p_handle r1 = Inr ''my-handle''
             \<and> map_sum error_message p_handle r2 = Inr ''my-handle''
             \<and> map (\<lambda>p. (p_id p, p_handle p)) (user_profiles s2 ''acc_1'')
                 = [(''p1'', ''my-handle''), (''p2'', ''my-handle'')]))"
  by code_simp

text \<open>
  Claim C5. Whatever links a profile had, saving it with the link list
  \<open>[{title: "A", url: "https://a"}, {title: "B", url: "https://b"}]\<close> and then loading the
  account's profiles returns that profile with exactly two links, titled A and B in that
  order, with order indexes 0 and 1; sorting them by \<open>byOrder\<close> changes nothing. The ids
  of the account's profiles are pairwise distinct and the random id is new.
\<close>

theorem save_then_load_returns_links_A_B:
  assumes name: "trim (py_name pay) \<noteq> []"
    and handle: "normaliseHandle (py_handle pay) \<noteq> []"
    and links: "py_links pay = Some links_AB"
    and ids: "distinct (map p_id (user_profiles s userId))"
    and fresh: "rand_profile e \<notin> p_id ` set (user_profiles s userId)"
  shows "\<exists>p s1. memorySaveProfileForUser s userId pay e = (Inr p, s1)
           \<and> find (\<lambda>q. p_id q = p_id p) (fst (memoryGetProfiles s1 userId)) = Some p
           \<and> map l_title (p_links p) = [''A'', ''B'']
           \<and> map l_url (p_links p) = [''https://a'', ''https://b'']
           \<and> map l_order_index (p_links p) = [0, 1]
           \<and> sort_by byOrder (p_links p) = p_links p"
proof -
  define ps where "ps = user_profiles s userId"
  define up where "up = save_args_upsert userId pay e ps"
  define ps' where "ps' = snd (save_list userId pay e ps)"
  define p where "p = ps' ! fst up"
  define s1 where "s1 = snd (memorySaveProfileForUser s userId pay e)"
  have k: "fst up < length (snd up)"
    unfolding up_def save_args_upsert_def by (rule save_upsert_index)
  have fk: "fst (save_list userId pay e ps) = fst up"
    unfolding up_def by (rule save_list_shape(1))
  have ids': "map p_id ps' = map p_id (snd up)"
    unfolding ps'_def up_def by (rule save_list_shape(2))
  have r: "memorySaveProfileForUser s userId pay e = (Inr p, s1)"
    using save_refines(1) [OF name handle, of s userId e] fk
    by (simp add: s1_def p_def ps'_def ps_def prod_eq_iff)
  have u1: "user_profiles s1 userId = ps'"
    using save_refines(2) [OF name handle, of s userId e userId]
    by (simp add: s1_def ps'_def ps_def)
  have dist: "distinct (map p_id ps')"
    using save_upsert_ids [of userId pay e "trim (py_name pay)" "normaliseHandle (py_handle pay)"
        "case py_headline pay of None \<Rightarrow> None | Some h \<Rightarrow> if trim h = [] then None else Some (trim h)"
        "normaliseTheme (py_theme pay)" ps] ids fresh
    by (auto simp: ids' up_def save_args_upsert_def ps_def)
  have len: "length ps' = length (snd up)"
    using arg_cong [OF ids', of length] by simp
  have mem: "p \<in> set ps'"
    unfolding p_def using k len by simp
  have loaded: "fst (memoryGetProfiles s1 userId)
                  = sort_by (\<lambda>a b. localeCompare (p_created_at a) (p_created_at b)) ps'"
    by (simp add: memoryGetProfiles_def case_prod_beta u1)
  have found: "find (\<lambda>q. p_id q = p_id p) (fst (memoryGetProfiles s1 userId)) = Some p"
    unfolding loaded by (rule find_by_distinct_key [OF dist mem]) (rule sort_by_set)
  have pl: "p_links p = save_links userId (snd up ! fst up) links_AB e"
    using save_list_shape(3) [of userId pay e ps] links
    by (simp add: p_def ps'_def up_def)
  show ?thesis
    using r found by (auto simp: pl save_links_AB)
qed

theorem save_then_load_returns_links_A_B_witness:
  "trim (py_name relink_payload) \<noteq> []
   \<and> normaliseHandle (py_handle relink_payload) \<noteq> []
   \<and> py_links relink_payload = Some links_AB
   \<and> distinct (map p_id (user_profiles store_1 ''acc_1''))
   \<and> rand_profile env_2 \<notin> p_id ` set (user_profiles store_1 ''acc_1'')
   \<and> map (\<lambda>p. map l_title (p_links p)) (user_profiles store_1 ''acc_1'') = [[''Site'']]
   \<and> (\<exists>p s1. memorySaveProfileForUser store_1 ''acc_1'' relink_payload env_2 = (Inr p, s1)
         \<and> find (\<lambda>q. p_id q = p_id p) (fst (memoryGetProfiles s1 ''acc_1'')) = Some p
         \<and> map l_title (p_links p) = [''A'', ''B'']
         \<and> map l_url (p_links p) = [''https://a'', ''https://b'']
         \<and> map l_order_index (p_links p) = [0, 1]
         \<and> sort_by byOrder (p_links p) = p_links p)"
proof -
  have h1: "trim (py_name relink_payload) \<noteq> []" by code_simp
  have h2: "normaliseHandle (py_handle relink_payload) \<noteq> []" by code_simp
  have h3: "py_links relink_payload = Some links_AB" by code_simp
  have h4: "distinct (map p_id (user_profiles store_1 ''acc_1''))" by code_simp
  have h5: "rand_profile env_2 \<notin> p_id ` set (user_profiles store_1 ''acc_1'')" by code_simp
  have h6: "map (\<lambda>p. map l_title (p_links p)) (user_profiles store_1 ''acc_1'') = [[''Site'']]"
    by code_simp
  from save_then_load_returns_links_A_B [OF h1 h2 h3 h4 h5]
  show ?thesis using h1 h2 h3 h4 h5 h6 by blast
qed

text \<open>
  Claim C6. The repair \<open>memoryEnsureHasActiveProfile\<close> is idempotent: applied a second time
  (at any later clock reading) it leaves the store exactly as the first application left it.
\<close>

theorem ensure_has_active_idempotent:
  "memoryEnsureHasActiveProfile (memoryEnsureHasActiveProfile s userId t1) userId t2
     = memoryEnsureHasActiveProfile s userId t1"
  by (auto simp: memoryEnsureHasActiveProfile_def ensureMemoryProfiles_def set_profiles_def
           split: option.splits list.splits)

text \<open>
  Claim C7. At most one save is in flight at any time, and a save requested while one is
  in flight is followed, when that one completes, by exactly one more save that carries the
  draft of that moment. The first part holds in every run (\<open>at_most_one_save_in_flight\<close>),
  and the second when the save in flight fails
  (\<open>failed_save_is_followed_by_one_save_of_the_latest_draft\<close>). When it succeeds the editor
  replaces the draft by the response, which makes it clean, and the pending save is never
  sent: after the edits 1 and 2, with the save of draft 1 in flight and a save requested
  for draft 2, the success of the first leaves no request in flight, one request sent in
  all, the draft back at 1 and the pending flag still set.
\<close>

theorem follow_up_save_is_dropped_after_success:
  "map_option (\<lambda>e. (ed_draft e, ed_saving e, ed_autosavePending e, ed_inflight e, ed_sent e))
     (run (\<lambda>response draft. response) (loaded ''u1'' (0::nat))
        [Edit (\<lambda>d. 1), TimerFires, Edit (\<lambda>d. 2), TimerFires])
     = Some (Some 2, True, True, [1], [1])
   \<and> map_option (\<lambda>e. (ed_draft e, ed_saving e, ed_autosavePending e, ed_inflight e, ed_sent e))
     (run (\<lambda>response draft. response) (loaded ''u1'' (0::nat))
        [Edit (\<lambda>d. 1), TimerFires, Edit (\<lambda>d. 2), TimerFires, SaveSucceeded 1])
     = Some (Some 1, False, True, [], [1])"
  by code_simp

text \<open>
  Claim C8. The keys \<open>ensureUniqueKeys\<close> assigns are pairwise distinct, for every list of
  fields (\<open>persist\<close> upserts the rows of \<open>ensureUniqueKeys(fields)\<close> under these keys); and
  adding the field labelled Email twice to an empty form gives the keys \<open>email\<close> and
  \<open>email_1\<close>.
\<close>

theorem ensureUniqueKeys_distinct:
  "distinct (map b_key (ensureUniqueKeys fs))
   \<and> map b_key (handleAddField (handleAddField [] email_field ''id-1'') email_field ''id-2'')
       = [''email'', ''email_1'']"
proof (intro conjI)
  show "distinct (map b_key (ensureUniqueKeys fs))"
    using unique_keys_from_keys [of "[]" fs] by (simp add: ensureUniqueKeys_def)
  show "map b_key (handleAddField (handleAddField [] email_field ''id-1'') email_field ''id-2'')
       = [''email'', ''email_1'']"
    by code_simp
qed

text \<open>
  Claim C9, as amended. A submission whose honeypot input is not empty after trimming is
  never persisted nor forwarded to an endpoint. When the owner id is present and the
  validation of the required fields and of the consent passes, the sender gets the success
  toast and the form is reset, as on a genuine submission (\<open>genuine_submission_success\<close>);
  when the owner id is missing or the validation fails, the sender gets that error toast
  and the form is left as it is, whatever the honeypot holds.
\<close>

theorem honeypot_submission_discarded:
  assumes "length (trim (fs_trap st)) > 0"
  shows "filter is_send (snd (onSubmit props net st)) = []
         \<and> (has_owner props \<and> validateRequired st = None
              \<longrightarrow> onSubmit props net st = (resetForm st, [success_toast st]))
         \<and> (\<not> has_owner props
              \<longrightarrow> onSubmit props net st = (st, [Toast ''Unavailable'' ''Owner not found.'' Destructive]))
         \<and> (has_owner props \<and> validateRequired st \<noteq> None
              \<longrightarrow> onSubmit props net st
                    = (st, [Toast ''Missing info'' (the (validateRequired st)) Destructive]))"
  by (cases "validateRequired st") (simp_all add: honeypot_guard [OF assms] success_toast_def)

theorem honeypot_submission_discarded_witness:
  "length (trim (fs_trap (bot_state\<lparr> fs_consentChecked := True \<rparr>))) > 0
   \<and> has_owner demo_props
   \<and> validateRequired (bot_state\<lparr> fs_consentChecked := True \<rparr>) = None
   \<and> filter is_send (snd (onSubmit demo_props net_ok (bot_state\<lparr> fs_consentChecked := True \<rparr>))) = []
   \<and> onSubmit demo_props net_ok (bot_state\<lparr> fs_consentChecked := True \<rparr>)
       = (resetForm (bot_state\<lparr> fs_consentChecked := True \<rparr>),
          [success_toast (bot_state\<lparr> fs_consentChecked := True \<rparr>)])"
proof -
  have h1: "length (trim (fs_trap (bot_state\<lparr> fs_consentChecked := True \<rparr>))) > 0" by code_simp
  have h2: "has_owner demo_props" by code_simp
  have h3: "validateRequired (bot_state\<lparr> fs_consentChecked := True \<rparr>) = None" by code_simp
  from honeypot_submission_discarded [OF h1, of demo_props net_ok] h2 h3
  show ?thesis using h1 by blast
qed

text \<open>
  The claim as stated fails: with every field and the honeypot filled in and the consent
  box unchecked, the sender gets "Missing info" in place of the success toast, and the form
  is not reset.
\<close>

theorem honeypot_claim_counterexample:
  "length (trim (fs_trap bot_state)) > 0
   \<and> has_owner demo_props
   \<and> onSubmit demo_props net_ok bot_state
       = (bot_state, [Toast ''Missing info'' ''Please accept the consent checkbox.'' Destructive])
   \<and> onSubmit demo_props net_ok bot_state \<noteq> (resetForm bot_state, [success_toast bot_state])"
  by code_simp

text \<open>
  Claim C10. For an account with at least one profile, \<open>memorySetActiveProfileForUser\<close> with
  an id that is none of the account's profile ids throws "Profile not found", and the store it
  leaves has every profile of the account demoted: the same profiles with
  \<open>is_active = false\<close>, so no active profile at all.
\<close>

theorem set_active_unknown_id_demotes_all:
  assumes "user_profiles s userId \<noteq> []"
    and "profileId \<notin> set (map p_id (user_profiles s userId))"
  shows "\<exists>s'. memorySetActiveProfileForUser s userId profileId now = (Inl ProfileNotFound, s')
           \<and> error_message ProfileNotFound = ''Profile not found''
           \<and> user_profiles s' userId = map (\<lambda>p. p\<lparr> p_is_active := False \<rparr>) (user_profiles s userId)
           \<and> user_profiles s' userId \<noteq> []
           \<and> active_count s' userId = 0"
  using assms
  by (auto simp: memorySetActiveProfileForUser_def memoryEnsureSingleActiveProfile_def
        ensureMemoryProfiles_def set_profiles_def user_profiles_def active_count_def
        list_ex_id_mem filter_empty_conv
      split: option.splits intro!: map_cong)

theorem set_active_unknown_id_demotes_all_witness:
  "user_profiles store_1 ''acc_1'' \<noteq> []
   \<and> ''ghost'' \<notin> set (map p_id (user_profiles store_1 ''acc_1''))
   \<and> active_count store_1 ''acc_1'' = 1
   \<and> (\<exists>s'. memorySetActiveProfileForUser store_1 ''acc_1'' ''ghost'' ''2024-01-05T00:00:00.000Z''
               = (Inl ProfileNotFound, s')
         \<and> error_message ProfileNotFound = ''Profile not found''
         \<and> user_profiles s' ''acc_1''
             = map (\<lambda>p. p\<lparr> p_is_active := False \<rparr>) (user_profiles store_1 ''acc_1'')
         \<and> user_profiles s' ''acc_1'' \<noteq> []
         \<and> active_count s' ''acc_1'' = 0)"
proof -
  have h1: "user_profiles store_1 ''acc_1'' \<noteq> []" by code_simp
  have h2: "''ghost'' \<notin> set (map p_id (user_profiles store_1 ''acc_1''))" by code_simp
  have h3: "active_count store_1 ''acc_1'' = 1" by code_simp
  from set_active_unknown_id_demotes_all [OF h1 h2]
  show ?thesis using h1 h2 h3 by blast
qed

end
